theory Spec2Isabelle
  imports Complex_Main
begin

section \<open>Listener documents and JavaScript values\<close>

text \<open>
  A change listener is a JSON document of the store. Every field may be absent
  (\<open>undefined\<close> in JavaScript), so every field is an option; the partial document
  \<^verbatim>\<open>{ _id: id, last_seq: lastSeq }\<close> and the fresh object \<^verbatim>\<open>{ db_name: dbName }\<close> are
  values of the same type with the other fields absent.

  Timestamps are produced by \<^verbatim>\<open>new Date(ms).toISOString()\<close>; the model keeps the
  milliseconds since the epoch that the ISO-8601 string renders. Such a string is never
  empty, so a timestamp field is truthy exactly when it is present.
\<close>

type_synonym timestamp = int
type_synonym seq = string

record listener =
  doc_id :: "string option"
  doc_rev :: "nat option"
  doc_type :: "string option"
  db_name :: "string option"
  dirty :: "bool option"
  dirty_at :: "timestamp option"
  locked_at :: "timestamp option"
  last_seq :: "seq option"
  retries :: "nat option"
  updated_at :: "timestamp option"

definition emptyDoc :: listener where
  "emptyDoc = \<lparr> doc_id = None, doc_rev = None, doc_type = None, db_name = None,
     dirty = None, dirty_at = None, locked_at = None, last_seq = None, retries = None,
     updated_at = None \<rparr>"

text \<open>JavaScript truthiness of the field types that the source tests.\<close>

definition truthy_str :: "string option \<Rightarrow> bool" where
  "truthy_str v = (case v of None \<Rightarrow> False | Some s \<Rightarrow> s \<noteq> [])"

definition truthy_bool :: "bool option \<Rightarrow> bool" where
  "truthy_bool v = (case v of None \<Rightarrow> False | Some b \<Rightarrow> b)"

definition truthy_ts :: "timestamp option \<Rightarrow> bool" where
  "truthy_ts v = (case v of None \<Rightarrow> False | Some t \<Rightarrow> True)"

definition truthy_num :: "nat option \<Rightarrow> bool" where
  "truthy_num v = (case v of None \<Rightarrow> False | Some n \<Rightarrow> n \<noteq> 0)"

text \<open>
  A value used as a property key or concatenated to a string is converted to a string:
  \<open>undefined\<close> becomes the text \<^verbatim>\<open>undefined\<close>.
\<close>

definition js_str :: "string option \<Rightarrow> string" where
  "js_str v = (case v of None \<Rightarrow> ''undefined'' | Some s \<Rightarrow> s)"

text \<open>
  A plain JavaScript object used as a dictionary, as an association list in insertion
  order: assigning an existing key keeps its position, \<^verbatim>\<open>delete\<close> removes it, and
  \<^verbatim>\<open>Object.keys\<close> and \<^verbatim>\<open>sporks.each\<close> enumerate in that order. (JavaScript
  enumerates keys that are canonical array indices first; database names start with a
  letter or an underscore and are never such keys.)
\<close>

fun obj_set :: "(string \<times> 'v) list \<Rightarrow> string \<Rightarrow> 'v \<Rightarrow> (string \<times> 'v) list" where
  "obj_set [] k v = [(k, v)]"
| "obj_set ((k', v') # kvs) k v =
     (if k' = k then (k, v) # kvs else (k', v') # obj_set kvs k v)"

definition obj_delete :: "(string \<times> 'v) list \<Rightarrow> string \<Rightarrow> (string \<times> 'v) list" where
  "obj_delete kvs k = filter (\<lambda>kv. fst kv \<noteq> k) kvs"

definition obj_keys :: "(string \<times> 'v) list \<Rightarrow> string list" where
  "obj_keys kvs = map fst kvs"

text \<open>\<^verbatim>\<open>sporks.flip(dbNames)\<close>: the object that maps every element of the array to its index.\<close>

fun flip_from :: "nat \<Rightarrow> string list \<Rightarrow> (string \<times> nat) list \<Rightarrow> (string \<times> nat) list" where
  "flip_from i [] acc = acc"
| "flip_from i (n # ns) acc = flip_from (Suc i) ns (obj_set acc n i)"

definition flip :: "string list \<Rightarrow> (string \<times> nat) list" where
  "flip dbNames = flip_from 0 dbNames []"

section \<open>The claim protocol\<close>

definition idPrefix :: string where
  "idPrefix = ''spiegel_cl_''"

definition toId :: "string option \<Rightarrow> string" where
  "toId dbName = idPrefix @ js_str dbName"

text \<open>
  Modelled from the spec: \<^verbatim>\<open>_setUpdatedAt\<close> belongs to the base class \<^verbatim>\<open>Process\<close>
  (\<^verbatim>\<open>./process\<close>), which is not among the sources; the spec's \<^verbatim>\<open>touchUpdatedAt(doc)\<close> is
  timestamp bookkeeping that refreshes \<open>updated_at\<close>. The first argument is the clock.
\<close>

definition setUpdatedAt :: "timestamp \<Rightarrow> listener \<Rightarrow> listener" where
  "setUpdatedAt now item = item\<lparr> updated_at := Some now \<rparr>"

text \<open>The test \<^verbatim>\<open>!listener.dirty || listener.locked_at\<close> of \<^verbatim>\<open>_getCleanLockedOrMissing\<close>.\<close>

definition cleanOrLocked :: "listener \<Rightarrow> bool" where
  "cleanOrLocked l = (\<not> truthy_bool (dirty l) \<or> truthy_ts (locked_at l))"

text \<open>
  The loop \<^verbatim>\<open>listeners.map(listener => ...)\<close> of \<^verbatim>\<open>_getCleanLockedOrMissing\<close>, threading
  the object \<open>missing\<close> and the array \<open>lists\<close> (here \<open>lists'\<close>).
\<close>

fun scanListeners ::
  "listener list \<Rightarrow> (string \<times> nat) list \<Rightarrow> listener list \<Rightarrow> (string \<times> nat) list \<times> listener list" where
  "scanListeners [] missing lists' = (missing, lists')"
| "scanListeners (l # ls) missing lists' =
     scanListeners ls (obj_delete missing (js_str (db_name l)))
       (if cleanOrLocked l then lists' @ [l] else lists')"

text \<open>
  \<^verbatim>\<open>_getCleanLockedOrMissing(dbNames)\<close>; the first argument is what the view query
  \<^verbatim>\<open>_getByDBNames(dbNames)\<close> returned.
\<close>

definition getCleanLockedOrMissing :: "listener list \<Rightarrow> string list \<Rightarrow> listener list" where
  "getCleanLockedOrMissing fetched dbNames =
     (case scanListeners fetched (flip dbNames) [] of
        (missing, lists') \<Rightarrow>
          lists' @ map (\<lambda>dbName. emptyDoc\<lparr> db_name := Some dbName \<rparr>) (obj_keys missing))"

text \<open>The body of the \<^verbatim>\<open>forEach\<close> of \<^verbatim>\<open>_dirtyOrCreate\<close>, on one listener.\<close>

definition dirtyOne :: "timestamp \<Rightarrow> listener \<Rightarrow> listener" where
  "dirtyOne now l =
     (if truthy_str (doc_id l) then setUpdatedAt now (l\<lparr> dirty := Some True \<rparr>)
      else setUpdatedAt now
        (l\<lparr> doc_id := Some (toId (db_name l)), doc_type := Some ''change_listener'',
           dirty := Some True \<rparr>))"

text \<open>
  \<^verbatim>\<open>_dirtyOrCreate(listeners)\<close>: the documents handed to the store's
  \<^verbatim>\<open>bulkCreateOrUpdate\<close>, in the order of the array.
\<close>

definition dirtyOrCreate :: "timestamp \<Rightarrow> listener list \<Rightarrow> listener list" where
  "dirtyOrCreate now listeners = map (dirtyOne now) listeners"

text \<open>
  One entry of the bulk response. \<^verbatim>\<open>isConflictError\<close> recognises the store's
  optimistic-concurrency rejection.
\<close>

datatype bulk_result = Written | Conflict | Rejected string

definition isConflictError :: "bulk_result \<Rightarrow> bool" where
  "isConflictError d = (case d of Conflict \<Rightarrow> True | _ \<Rightarrow> False)"

text \<open>
  Failures. \<open>StoreError e\<close> is a rejection of the store client that carries the field
  \<^verbatim>\<open>error\<close> = \<open>e\<close>; \<open>DatabaseNotFoundError\<close> and \<open>ApiRequestError\<close> are the classes of
  \<^verbatim>\<open>./errors\<close>; \<open>TypeError\<close> and \<open>URIError\<close> are raised by the language itself.
\<close>

datatype err =
    StoreError string
  | DatabaseNotFoundError "string option"
  | ApiRequestError string
  | TypeError
  | URIError
  | OtherError string

text \<open>
  The \<^verbatim>\<open>response.forEach((doc, i) => ...)\<close> of \<^verbatim>\<open>_dirtyAndGetConflictedDBNames\<close>: entry
  \<open>i\<close> of the response is paired with \<^verbatim>\<open>listeners[i]\<close>. Reading \<^verbatim>\<open>db_name\<close> of a missing
  \<^verbatim>\<open>listeners[i]\<close> raises a TypeError.
\<close>

fun collectConflicts ::
  "bulk_result list \<Rightarrow> listener list \<Rightarrow> (string \<times> bool) list \<Rightarrow> err + (string \<times> bool) list" where
  "collectConflicts [] ls acc = Inr acc"
| "collectConflicts (d # ds) [] acc =
     (if isConflictError d then Inl TypeError else collectConflicts ds [] acc)"
| "collectConflicts (d # ds) (l # ls) acc =
     collectConflicts ds ls
       (if isConflictError d then obj_set acc (js_str (db_name l)) True else acc)"

text \<open>
  \<^verbatim>\<open>_dirtyAndGetConflictedDBNames\<close>, given the documents that \<^verbatim>\<open>_dirtyOrCreate\<close> wrote and
  the store's response to the bulk write.
\<close>

definition dirtyAndGetConflictedDBNames ::
  "listener list \<Rightarrow> bulk_result list \<Rightarrow> err + string list" where
  "dirtyAndGetConflictedDBNames docs response =
     (case collectConflicts response docs [] of
        Inl e \<Rightarrow> Inl e
      | Inr conflictedDBNames \<Rightarrow> Inr (obj_keys conflictedDBNames))"

text \<open>
  The store during one round of the protocol: what the view query returns for the keys
  it is given, and how the store answers the bulk write of the documents it is given.
  The calls this process makes are logged.
\<close>

record round =
  view :: "string list \<Rightarrow> listener list"
  bulk :: "listener list \<Rightarrow> bulk_result list"

datatype store_call =
    ViewByDBNames "string list"
  | BulkCreateOrUpdate "listener list"

text \<open>
  \<^verbatim>\<open>_attemptToDirtyIfCleanOrLocked\<close>: \<open>None\<close> is the \<open>undefined\<close> it returns when there is
  nothing to dirty.
\<close>

definition attemptToDirtyIfCleanOrLocked ::
  "timestamp \<Rightarrow> round \<Rightarrow> string list \<Rightarrow> store_call list \<Rightarrow> (err + string list option) \<times> store_call list" where
  "attemptToDirtyIfCleanOrLocked now r dbNames calls =
     (let listeners = getCleanLockedOrMissing (view r dbNames) dbNames;
          calls1 = calls @ [ViewByDBNames dbNames]
      in if length listeners > 0 then
           (let docs = dirtyOrCreate now listeners
            in (case dirtyAndGetConflictedDBNames docs (bulk r docs) of
                  Inl e \<Rightarrow> (Inl e, calls1 @ [BulkCreateOrUpdate docs])
                | Inr names \<Rightarrow> (Inr (Some names), calls1 @ [BulkCreateOrUpdate docs])))
         else (Inr None, calls1))"

text \<open>
  \<^verbatim>\<open>dirtyIfCleanOrLocked\<close>. The recursion of the source has no bound: it goes on for as
  long as the store reports conflicts. The list of rounds says how the store behaves at
  each recursive call; the result is \<open>None\<close> when the rounds are used up and the last
  one still reported a conflict.
\<close>

fun dirtyIfCleanOrLocked ::
  "timestamp \<Rightarrow> round list \<Rightarrow> string list \<Rightarrow> store_call list \<Rightarrow> (err + unit) option \<times> store_call list" where
  "dirtyIfCleanOrLocked now [] dbNames calls = (None, calls)"
| "dirtyIfCleanOrLocked now (r # rs) dbNames calls =
     (case attemptToDirtyIfCleanOrLocked now r dbNames calls of
        (Inl e, calls') \<Rightarrow> (Some (Inl e), calls')
      | (Inr None, calls') \<Rightarrow> (Some (Inr ()), calls')
      | (Inr (Some conflictedDBNames), calls') \<Rightarrow>
          (if length conflictedDBNames > 0
           then dirtyIfCleanOrLocked now rs conflictedDBNames calls'
           else (Some (Inr ()), calls')))"

section \<open>The store adapter's merge-upsert\<close>

text \<open>
  Modelled from the spec: the store and its client (\<^verbatim>\<open>this._slouch\<close>) are not among the
  sources. The spec's store keeps one document per id with a store-assigned revision, the
  optimistic-concurrency token: a write is accepted when it carries the revision the
  store holds for the id (none for a document that does not exist) and gives the document
  its next revision; otherwise it is rejected as a conflict (\<open>None\<close>).
\<close>

type_synonym store = "string \<Rightarrow> listener option"

definition current_rev :: "store \<Rightarrow> string \<Rightarrow> nat option" where
  "current_rev st i = (case st i of None \<Rightarrow> None | Some c \<Rightarrow> doc_rev c)"

definition next_rev :: "nat option \<Rightarrow> nat option" where
  "next_rev r = (case r of None \<Rightarrow> Some 1 | Some n \<Rightarrow> Some (Suc n))"

definition put :: "store \<Rightarrow> string \<Rightarrow> listener \<Rightarrow> store option" where
  "put st i d =
     (if doc_rev d = current_rev st i
      then Some (st(i \<mapsto> d\<lparr> doc_id := Some i, doc_rev := next_rev (doc_rev d) \<rparr>))
      else None)"

text \<open>
  A write by another process: it applies its update to the document it finds, and the
  store assigns the next revision. It does nothing when the document does not exist.
\<close>

definition other_write :: "(listener \<Rightarrow> listener) \<Rightarrow> string \<Rightarrow> store \<Rightarrow> store" where
  "other_write f i st =
     (case st i of
        None \<Rightarrow> st
      | Some d \<Rightarrow> st(i \<mapsto> (f d)\<lparr> doc_id := doc_id d, doc_rev := next_rev (doc_rev d) \<rparr>))"

text \<open>The fields that the partial document carries replace those of the stored one.\<close>

definition field_or :: "'a option \<Rightarrow> 'a option \<Rightarrow> 'a option" where
  "field_or new old = (case new of None \<Rightarrow> old | Some v \<Rightarrow> Some v)"

definition merge_doc :: "listener \<Rightarrow> listener \<Rightarrow> listener" where
  "merge_doc cur p =
     \<lparr> doc_id = doc_id cur, doc_rev = doc_rev cur,
       doc_type = field_or (doc_type p) (doc_type cur),
       db_name = field_or (db_name p) (db_name cur),
       dirty = field_or (dirty p) (dirty cur),
       dirty_at = field_or (dirty_at p) (dirty_at cur),
       locked_at = field_or (locked_at p) (locked_at cur),
       last_seq = field_or (last_seq p) (last_seq cur),
       retries = field_or (retries p) (retries cur),
       updated_at = field_or (updated_at p) (updated_at cur) \<rparr>"

definition merged :: "store \<Rightarrow> string \<Rightarrow> listener \<Rightarrow> listener" where
  "merged st i p =
     (case st i of None \<Rightarrow> p\<lparr> doc_rev := None \<rparr> | Some cur \<Rightarrow> merge_doc cur p)"

text \<open>
  Modelled from the spec: \<^verbatim>\<open>getMergeUpsert\<close> belongs to the store client
  (\<^verbatim>\<open>this._slouch.doc\<close>), which is not among the sources; the spec's
  \<^verbatim>\<open>mergeUpsert(collectionId, partialDoc)\<close> applies a partial field update and is retried
  internally against revision conflicts. One attempt reads the stored document, merges
  the partial document into it and writes the result with the revision it read. The
  first argument lists the writes of other processes to the same document: each lands
  between the read and the write of one attempt, which then conflicts and is repeated.
  The list is finite, so every run of the model ends.
\<close>

fun mergeUpsertLoop :: "(listener \<Rightarrow> listener) list \<Rightarrow> store \<Rightarrow> string \<Rightarrow> listener \<Rightarrow> store" where
  "mergeUpsertLoop [] st i p =
     (case put st i (merged st i p) of None \<Rightarrow> st | Some st' \<Rightarrow> st')"
| "mergeUpsertLoop (f # fs) st i p =
     (case put (other_write f i st) i (merged st i p) of
        None \<Rightarrow> mergeUpsertLoop fs (other_write f i st) i p
      | Some st' \<Rightarrow> st')"

definition getMergeUpsert :: "(listener \<Rightarrow> listener) list \<Rightarrow> store \<Rightarrow> listener \<Rightarrow> store" where
  "getMergeUpsert racing st p =
     (case doc_id p of None \<Rightarrow> st | Some i \<Rightarrow> mergeUpsertLoop racing st i p)"

section \<open>The batch engine\<close>

text \<open>
  The value of \<^verbatim>\<open>changes.pending\<close> as the change feed sends it (a number, a boolean, or
  nothing), and its truthiness.
\<close>

datatype jsval = Undefined | Bool bool | Num int

definition truthy :: "jsval \<Rightarrow> bool" where
  "truthy v = (case v of Undefined \<Rightarrow> False | Bool b \<Rightarrow> b | Num n \<Rightarrow> n \<noteq> 0)"

datatype change = Change (change_seq: seq) (change_doc: string)

record changes_page =
  results :: "change list"
  page_last_seq :: seq
  pending :: jsval

record changes_opts =
  since :: "seq option"
  include_docs :: bool
  limit :: nat

text \<open>
  An outbound request is a promise: it settles at some instant, fulfilled
  (\<open>failure = None\<close>) or rejected with an error. \<open>settles_at\<close> is the position of the
  settlement in the order in which the event loop delivers the settlements.
\<close>

record request =
  settles_at :: nat
  failure :: "err option"

text \<open>
  The collaborators of one batch: the configured batch size, the store's change feed,
  the change processor (the requests it appends to the shared array, and the error when
  its promise is rejected), the backoff policy, the clock in milliseconds,
  \<^verbatim>\<open>decodeURIComponent\<close> (\<open>None\<close> is a URIError), and the writes of other
  processes that race with the merge-upsert of \<open>last_seq\<close>.
\<close>

record env =
  batchSize :: nat
  changesArray :: "string option \<Rightarrow> changes_opts \<Rightarrow> err + changes_page"
  processChange :: "change \<Rightarrow> string option \<Rightarrow> request list \<Rightarrow> request list \<times> err option"
  hasReachedRetryLimit :: "nat \<Rightarrow> bool"
  getDelaySecs :: "nat \<Rightarrow> rat"
  clock :: int
  decodeURIComponent :: "string \<Rightarrow> string option"
  racing :: "(listener \<Rightarrow> listener) list"

text \<open>
  What a batch leaves behind: the listeners' database, the errors handed to
  \<^verbatim>\<open>_onError\<close>, the changes the change processor was given (with the database name), the
  wake-up times handed to \<^verbatim>\<open>_queueSoiler\<close>, and the instant at which the join of
  \<^verbatim>\<open>_waitForRequests\<close> settled.
\<close>

record world =
  store :: store
  reported :: "err list"
  observed :: "(change \<times> string option) list"
  soiler :: "timestamp list"
  resumed_at :: "nat option"

text \<open>
  Modelled from the spec: \<^verbatim>\<open>_onError\<close>, \<^verbatim>\<open>_clearRetries\<close>, \<^verbatim>\<open>_setDirtyAt\<close>,
  \<^verbatim>\<open>_updateItem\<close> and \<^verbatim>\<open>_queueSoiler\<close> belong to the base class \<^verbatim>\<open>Process\<close>
  (\<^verbatim>\<open>./process\<close>), which is not among the sources. They are the spec's
  \<^verbatim>\<open>reportError(err)\<close>, "clear \<open>retries\<close> to 0", \<^verbatim>\<open>setDirtyAt(doc, timestamp)\<close>,
  \<^verbatim>\<open>persist(doc, retryOnConflict)\<close> (here always called with \<open>true\<close>: the record is
  merge-upserted) and \<^verbatim>\<open>notifyWakeupAt(timestamp)\<close>.
\<close>

definition onError :: "err \<Rightarrow> world \<Rightarrow> world" where
  "onError e w = w\<lparr> reported := reported w @ [e] \<rparr>"

definition clearRetries :: "listener \<Rightarrow> listener" where
  "clearRetries item = item\<lparr> retries := Some 0 \<rparr>"

definition setDirtyAt :: "listener \<Rightarrow> timestamp \<Rightarrow> listener" where
  "setDirtyAt item dirtyAt = item\<lparr> dirty_at := Some dirtyAt \<rparr>"

definition updateItem :: "listener \<Rightarrow> world \<Rightarrow> world" where
  "updateItem item w = w\<lparr> store := getMergeUpsert [] (store w) item \<rparr>"

definition queueSoiler :: "timestamp \<Rightarrow> world \<Rightarrow> world" where
  "queueSoiler dirtyTime w = w\<lparr> soiler := soiler w @ [dirtyTime] \<rparr>"

text \<open>\<^verbatim>\<open>_updateLastSeq(id, lastSeq)\<close>: the partial document and the merge-upsert.\<close>

definition lastSeqDoc :: "string option \<Rightarrow> seq \<Rightarrow> listener" where
  "lastSeqDoc i lastSeq = emptyDoc\<lparr> doc_id := i, last_seq := Some lastSeq \<rparr>"

definition updateLastSeq :: "env \<Rightarrow> string option \<Rightarrow> seq \<Rightarrow> world \<Rightarrow> world" where
  "updateLastSeq E i lastSeq w =
     w\<lparr> store := getMergeUpsert (racing E) (store w) (lastSeqDoc i lastSeq) \<rparr>"

definition isDatabaseNotFoundError :: "err \<Rightarrow> bool" where
  "isDatabaseNotFoundError e = (case e of DatabaseNotFoundError n \<Rightarrow> True | _ \<Rightarrow> False)"

definition isApiRequestError :: "err \<Rightarrow> bool" where
  "isApiRequestError e = (case e of ApiRequestError m \<Rightarrow> True | _ \<Rightarrow> False)"

text \<open>The field \<^verbatim>\<open>err.error\<close>.\<close>

definition err_error :: "err \<Rightarrow> string option" where
  "err_error e = (case e of StoreError s \<Rightarrow> Some s | _ \<Rightarrow> None)"

definition changesOpts :: "env \<Rightarrow> listener \<Rightarrow> changes_opts" where
  "changesOpts E listener =
     \<lparr> since = (if truthy_str (last_seq listener) then last_seq listener else None),
       include_docs = True, limit = batchSize E \<rparr>"

definition changesForListener :: "env \<Rightarrow> listener \<Rightarrow> err + changes_page" where
  "changesForListener E listener =
     (case changesArray E (db_name listener) (changesOpts E listener) of
        Inl e \<Rightarrow>
          (if err_error e = Some ''not_found''
           then Inl (DatabaseNotFoundError (db_name listener)) else Inl e)
      | Inr changes \<Rightarrow> Inr changes)"

text \<open>
  \<^verbatim>\<open>new Date(ms)\<close> drops the fraction of a millisecond (towards zero), and
  \<^verbatim>\<open>_scheduleRetry\<close> computes the time from the clock and the delay in seconds.
\<close>

definition js_trunc :: "rat \<Rightarrow> int" where
  "js_trunc x = (if x < 0 then \<lceil>x\<rceil> else \<lfloor>x\<rfloor>)"

definition retryTime :: "env \<Rightarrow> nat \<Rightarrow> timestamp" where
  "retryTime E r = js_trunc (of_int (clock E) + getDelaySecs E r * 1000)"

definition retriesOf :: "listener \<Rightarrow> nat" where
  "retriesOf item = (if truthy_num (retries item) then (case retries item of None \<Rightarrow> 0 | Some r \<Rightarrow> r) else 0)"

definition scheduleRetry :: "env \<Rightarrow> listener \<Rightarrow> world \<Rightarrow> listener \<times> world" where
  "scheduleRetry E item w =
     (let r = retriesOf item
      in if hasReachedRetryLimit E r then (clearRetries item, w)
         else
           (let dirtyTime = retryTime E r;
                item' = (setDirtyAt item dirtyTime)\<lparr> retries := Some (r + 1) \<rparr>
            in (item', queueSoiler dirtyTime (updateItem item' w))))"

text \<open>
  \<^verbatim>\<open>Promise.all(requests)\<close>: it is rejected with the error of the first request to be
  rejected, at that instant (settlements at the same instant are delivered in the order
  of the array), and fulfilled once every request is fulfilled.
\<close>

fun firstRejection :: "request list \<Rightarrow> (nat \<times> err) option" where
  "firstRejection [] = None"
| "firstRejection (q # qs) =
     (case failure q of
        None \<Rightarrow> firstRejection qs
      | Some e \<Rightarrow>
          (case firstRejection qs of
             None \<Rightarrow> Some (settles_at q, e)
           | Some (t, e') \<Rightarrow> if settles_at q \<le> t then Some (settles_at q, e) else Some (t, e')))"

definition lastSettlement :: "request list \<Rightarrow> nat" where
  "lastSettlement qs = foldr max (map settles_at qs) 0"

definition promiseAll :: "request list \<Rightarrow> nat \<times> err option" where
  "promiseAll qs =
     (case firstRejection qs of
        None \<Rightarrow> (lastSettlement qs, None)
      | Some (t, e) \<Rightarrow> (t, Some e))"

definition waitForRequests ::
  "env \<Rightarrow> request list \<Rightarrow> listener \<Rightarrow> world \<Rightarrow> (err + unit) \<times> listener \<times> world" where
  "waitForRequests E requests listener w =
     (case promiseAll requests of
        (t, None) \<Rightarrow> (Inr (), listener, w\<lparr> resumed_at := Some t \<rparr>)
      | (t, Some e) \<Rightarrow>
          (let w1 = onError e (w\<lparr> resumed_at := Some t \<rparr>)
           in if isApiRequestError e
              then (case scheduleRetry E listener w1 of (listener', w2) \<Rightarrow> (Inr (), listener', w2))
              else (Inl e, listener, w1)))"

text \<open>
  The promise chain of \<^verbatim>\<open>_processChanges\<close>: the change processor is given one change
  after the other; when its promise is rejected the rest of the chain is skipped.
\<close>

fun processChain ::
  "env \<Rightarrow> string option \<Rightarrow> change list \<Rightarrow> request list \<Rightarrow> world \<Rightarrow> (err + request list) \<times> world" where
  "processChain E dbName [] requests w = (Inr requests, w)"
| "processChain E dbName (c # cs) requests w =
     (case processChange E c dbName requests of
        (new, Some e) \<Rightarrow> (Inl e, w\<lparr> observed := observed w @ [(c, dbName)] \<rparr>)
      | (new, None) \<Rightarrow>
          processChain E dbName cs (requests @ new) (w\<lparr> observed := observed w @ [(c, dbName)] \<rparr>))"

definition processChanges ::
  "env \<Rightarrow> listener \<Rightarrow> changes_page \<Rightarrow> world \<Rightarrow> (err + unit) \<times> listener \<times> world" where
  "processChanges E listener changes w =
     (case processChain E (db_name listener) (results changes) [] w of
        (Inl e, w') \<Rightarrow> (Inl e, listener, w')
      | (Inr requests, w') \<Rightarrow> waitForRequests E requests listener w')"

definition moreBatches :: "changes_page \<Rightarrow> bool" where
  "moreBatches changes = truthy (pending changes)"

definition processBatchOfChanges ::
  "env \<Rightarrow> listener \<Rightarrow> world \<Rightarrow> (err + bool) \<times> listener \<times> world" where
  "processBatchOfChanges E listener w =
     (case changesForListener E listener of
        Inl e \<Rightarrow> (Inl e, listener, w)
      | Inr changes \<Rightarrow>
          (case processChanges E listener changes w of
             (Inl e, listener', w') \<Rightarrow> (Inl e, listener', w')
           | (Inr u, listener', w') \<Rightarrow>
               (Inr (moreBatches changes), listener',
                if truthy_ts (dirty_at listener') then w'
                else updateLastSeq E (doc_id listener') (page_last_seq changes) w')))"

text \<open>
  \<^verbatim>\<open>_processBatchOfChangesLogError\<close>. The \<^verbatim>\<open>try\<close> block awaits the batch and returns
  nothing, so the result of a batch that raises nothing is \<open>undefined\<close> (\<open>None\<close>).
\<close>

definition processBatchOfChangesLogError ::
  "env \<Rightarrow> listener \<Rightarrow> world \<Rightarrow> (err + bool option) \<times> listener \<times> world" where
  "processBatchOfChangesLogError E listener w =
     (case processBatchOfChanges E listener w of
        (Inr moreBatches', listener', w') \<Rightarrow> (Inr None, listener', w')
      | (Inl e, listener', w') \<Rightarrow>
          (if isDatabaseNotFoundError e then (Inl e, listener', w')
           else (Inr (Some True), listener', onError e w')))"

definition process :: "env \<Rightarrow> listener \<Rightarrow> world \<Rightarrow> (err + bool option) \<times> listener \<times> world" where
  "process E listener w =
     (case db_name listener of
        None \<Rightarrow> processBatchOfChangesLogError E listener w
      | Some n \<Rightarrow>
          (if n = [] then processBatchOfChangesLogError E listener w
           else (case decodeURIComponent E n of
                   None \<Rightarrow> (Inl URIError, listener, w)
                 | Some n' \<Rightarrow> processBatchOfChangesLogError E (listener\<lparr> db_name := Some n' \<rparr>) w)))"

section \<open>A concrete listener, store and environment\<close>

text \<open>
  The inputs at which the theorems below are evaluated: the listener of database \<open>a\<close>
  as a worker holds it (locked, resuming after sequence 5), a store that holds the same
  document, a page of two changes with cursor 9, and collaborators that succeed: the
  change processor appends one request per change, which is fulfilled.
\<close>

definition listenerA :: listener where
  "listenerA = \<lparr> doc_id = Some ''spiegel_cl_a'', doc_rev = Some 3,
     doc_type = Some ''change_listener'', db_name = Some ''a'', dirty = Some True,
     dirty_at = None, locked_at = Some 900, last_seq = Some ''5'', retries = None,
     updated_at = Some 900 \<rparr>"

definition worldA :: world where
  "worldA = \<lparr> store = [''spiegel_cl_a'' \<mapsto> listenerA], reported = [], observed = [],
     soiler = [], resumed_at = None \<rparr>"

definition pageA :: "jsval \<Rightarrow> changes_page" where
  "pageA p = \<lparr> results = [Change ''6'' ''doc1'', Change ''9'' ''doc2''],
     page_last_seq = ''9'', pending = p \<rparr>"

definition envA :: "jsval \<Rightarrow> env" where
  "envA p = \<lparr> batchSize = 100,
     changesArray = (\<lambda>dbName opts. Inr (pageA p)),
     processChange = (\<lambda>c dbName requests. ([\<lparr> settles_at = Suc (length requests), failure = None \<rparr>], None)),
     hasReachedRetryLimit = (\<lambda>r. False),
     getDelaySecs = (\<lambda>r. 5),
     clock = 1000,
     decodeURIComponent = Some,
     racing = [] \<rparr>"

text \<open>
  A change processor whose request for the first change is rejected with an
  \<open>ApiRequestError\<close> at instant 1, while the request for the second change is fulfilled
  at instant 5.
\<close>

definition failingFirst :: "change \<Rightarrow> string option \<Rightarrow> request list \<Rightarrow> request list \<times> err option" where
  "failingFirst c dbName requests =
     (if requests = [] then ([\<lparr> settles_at = 1, failure = Some (ApiRequestError ''503'') \<rparr>], None)
      else ([\<lparr> settles_at = 5, failure = None \<rparr>], None))"

text \<open>A change processor whose promise is rejected for every change.\<close>

definition rejecting :: "change \<Rightarrow> string option \<Rightarrow> request list \<Rightarrow> request list \<times> err option" where
  "rejecting c dbName requests = ([], Some (OtherError ''boom''))"

text \<open>The write of another process that dirties the listener, as the claim protocol does.\<close>

definition dirtiedByOther :: "listener \<Rightarrow> listener" where
  "dirtiedByOther d = d\<lparr> dirty := Some True, updated_at := Some 1001 \<rparr>"

section \<open>Properties of the claim protocol\<close>

subsection \<open>Objects used as dictionaries\<close>

lemma obj_set_keys:
  "map fst (obj_set kvs k v) = (if k \<in> fst ` set kvs then map fst kvs else map fst kvs @ [k])"
  by (induction kvs) (auto simp: image_iff, force+)

lemma remdups_snoc:
  "remdups (xs @ [n]) = filter (\<lambda>x. x \<noteq> n) (remdups xs) @ [n]"
  by (induction xs) auto

lemma first_occurrences_Cons:
  "rev (remdups (rev (n # ns))) = n # filter (\<lambda>x. x \<noteq> n) (rev (remdups (rev ns)))"
  by (simp add: remdups_snoc rev_filter)

lemma flip_from_keys:
  "map fst (flip_from i ns acc) =
     map fst acc @ filter (\<lambda>n. n \<notin> fst ` set acc) (rev (remdups (rev ns)))"
proof (induction ns arbitrary: i acc)
  case Nil
  then show ?case by simp
next
  case (Cons n ns)
  have keys: "fst ` set (obj_set acc n i) = insert n (fst ` set acc)"
  proof -
    have "set (map fst (obj_set acc n i)) = insert n (set (map fst acc))"
      unfolding obj_set_keys by auto
    then show ?thesis by simp
  qed
  show ?case
    unfolding flip_from.simps Cons.IH first_occurrences_Cons keys
    by (auto simp: obj_set_keys intro!: filter_cong)
qed

lemma flip_keys: "obj_keys (flip dbNames) = rev (remdups (rev dbNames))"
  by (simp add: flip_def obj_keys_def flip_from_keys)

lemma scanListeners_eq:
  "scanListeners ls missing acc =
     (filter (\<lambda>kv. fst kv \<notin> (\<lambda>l. js_str (db_name l)) ` set ls) missing,
      acc @ filter cleanOrLocked ls)"
  by (induction ls arbitrary: missing acc) (auto simp: obj_delete_def intro!: filter_cong)

lemma getCleanLockedOrMissing_eq:
  "getCleanLockedOrMissing fetched dbNames =
     filter (\<lambda>l. dirty l \<noteq> Some True \<or> locked_at l \<noteq> None) fetched @
     map (\<lambda>n. emptyDoc\<lparr> db_name := Some n \<rparr>)
       (filter (\<lambda>n. n \<notin> (\<lambda>l. js_str (db_name l)) ` set fetched) (rev (remdups (rev dbNames))))"
proof -
  have p: "cleanOrLocked = (\<lambda>l. dirty l \<noteq> Some True \<or> locked_at l \<noteq> None)"
    by (auto simp: cleanOrLocked_def truthy_bool_def truthy_ts_def fun_eq_iff split: option.splits)
  have k: "map fst (filter (\<lambda>kv. P (fst kv)) kvs) = filter P (map fst kvs)" for P and kvs :: "(string \<times> nat) list"
    by (induction kvs) auto
  have "obj_keys (filter (\<lambda>kv. fst kv \<notin> (\<lambda>l. js_str (db_name l)) ` set fetched) (flip dbNames))
      = filter (\<lambda>n. n \<notin> (\<lambda>l. js_str (db_name l)) ` set fetched) (rev (remdups (rev dbNames)))"
    unfolding flip_keys [symmetric] obj_keys_def by (rule k)
  then show ?thesis
    unfolding getCleanLockedOrMissing_def scanListeners_eq
    by (simp add: p)
qed

lemma dirtyOrCreate_selected:
  "dirtyOrCreate now (getCleanLockedOrMissing fetched dbNames) =
     map (dirtyOne now) (filter (\<lambda>l. dirty l \<noteq> Some True \<or> locked_at l \<noteq> None) fetched) @
     map (\<lambda>n. emptyDoc\<lparr> doc_id := Some (idPrefix @ n), doc_type := Some ''change_listener'',
                  db_name := Some n, dirty := Some True, updated_at := Some now \<rparr>)
       (filter (\<lambda>n. n \<notin> (\<lambda>l. js_str (db_name l)) ` set fetched) (rev (remdups (rev dbNames))))"
  unfolding getCleanLockedOrMissing_eq dirtyOrCreate_def
  by (simp add: dirtyOne_def emptyDoc_def truthy_str_def setUpdatedAt_def toId_def js_str_def)

subsection \<open>Which documents a claim writes\<close>

text \<open>
  C5. Of the records the view returned, exactly those that are not dirty or that carry
  \<open>locked_at\<close> are selected (in the order of the view), so a record that is dirty and
  not locked is neither selected nor written; the selected records are followed by one
  fresh object per database name that no returned record carries (each name once, in the
  order of first occurrence). Every such name is written as a new document with the id
  \<open>idPrefix @ name\<close>, the type \<open>change_listener\<close> and \<open>dirty = true\<close>.
\<close>

theorem claim_selects_clean_locked_or_missing:
  "getCleanLockedOrMissing fetched dbNames =
     filter (\<lambda>l. dirty l \<noteq> Some True \<or> locked_at l \<noteq> None) fetched @
     map (\<lambda>n. emptyDoc\<lparr> db_name := Some n \<rparr>)
       (filter (\<lambda>n. n \<notin> (\<lambda>l. js_str (db_name l)) ` set fetched) (rev (remdups (rev dbNames))))
   \<and> dirtyOrCreate now (getCleanLockedOrMissing fetched dbNames) =
     map (dirtyOne now) (filter (\<lambda>l. dirty l \<noteq> Some True \<or> locked_at l \<noteq> None) fetched) @
     map (\<lambda>n. emptyDoc\<lparr> doc_id := Some (idPrefix @ n), doc_type := Some ''change_listener'',
                  db_name := Some n, dirty := Some True, updated_at := Some now \<rparr>)
       (filter (\<lambda>n. n \<notin> (\<lambda>l. js_str (db_name l)) ` set fetched) (rev (remdups (rev dbNames))))
   \<and> (\<forall>n \<in> set dbNames. n \<notin> (\<lambda>l. js_str (db_name l)) ` set fetched \<longrightarrow>
         emptyDoc\<lparr> doc_id := Some (idPrefix @ n), doc_type := Some ''change_listener'',
                  db_name := Some n, dirty := Some True, updated_at := Some now \<rparr>
           \<in> set (dirtyOrCreate now (getCleanLockedOrMissing fetched dbNames)))"
proof (intro conjI ballI impI)
  show "getCleanLockedOrMissing fetched dbNames =
     filter (\<lambda>l. dirty l \<noteq> Some True \<or> locked_at l \<noteq> None) fetched @
     map (\<lambda>n. emptyDoc\<lparr> db_name := Some n \<rparr>)
       (filter (\<lambda>n. n \<notin> (\<lambda>l. js_str (db_name l)) ` set fetched) (rev (remdups (rev dbNames))))"
    by (rule getCleanLockedOrMissing_eq)
next
  show "dirtyOrCreate now (getCleanLockedOrMissing fetched dbNames) =
     map (dirtyOne now) (filter (\<lambda>l. dirty l \<noteq> Some True \<or> locked_at l \<noteq> None) fetched) @
     map (\<lambda>n. emptyDoc\<lparr> doc_id := Some (idPrefix @ n), doc_type := Some ''change_listener'',
                  db_name := Some n, dirty := Some True, updated_at := Some now \<rparr>)
       (filter (\<lambda>n. n \<notin> (\<lambda>l. js_str (db_name l)) ` set fetched) (rev (remdups (rev dbNames))))"
    by (rule dirtyOrCreate_selected)
next
  fix n
  assume "n \<in> set dbNames" and "n \<notin> (\<lambda>l. js_str (db_name l)) ` set fetched"
  then have "n \<in> set (filter (\<lambda>n. n \<notin> (\<lambda>l. js_str (db_name l)) ` set fetched) (rev (remdups (rev dbNames))))"
    by simp
  then show "emptyDoc\<lparr> doc_id := Some (idPrefix @ n), doc_type := Some ''change_listener'',
                  db_name := Some n, dirty := Some True, updated_at := Some now \<rparr>
           \<in> set (dirtyOrCreate now (getCleanLockedOrMissing fetched dbNames))"
    unfolding dirtyOrCreate_selected set_append set_map by blast
qed

theorem claim_selects_clean_locked_or_missing_witness:
  "getCleanLockedOrMissing
     [emptyDoc\<lparr> doc_id := Some ''spiegel_cl_a'', db_name := Some ''a'', dirty := Some False \<rparr>,
      emptyDoc\<lparr> doc_id := Some ''spiegel_cl_b'', db_name := Some ''b'', dirty := Some True \<rparr>,
      emptyDoc\<lparr> doc_id := Some ''spiegel_cl_c'', db_name := Some ''c'', dirty := Some True,
                locked_at := Some 7 \<rparr>]
     [''a'', ''d'', ''b'', ''c'', ''d'']
   = [emptyDoc\<lparr> doc_id := Some ''spiegel_cl_a'', db_name := Some ''a'', dirty := Some False \<rparr>,
      emptyDoc\<lparr> doc_id := Some ''spiegel_cl_c'', db_name := Some ''c'', dirty := Some True,
                locked_at := Some 7 \<rparr>,
      emptyDoc\<lparr> db_name := Some ''d'' \<rparr>]
   \<and> emptyDoc\<lparr> doc_id := Some ''spiegel_cl_d'', doc_type := Some ''change_listener'',
                db_name := Some ''d'', dirty := Some True, updated_at := Some 1000 \<rparr>
       \<in> set (dirtyOrCreate 1000 (getCleanLockedOrMissing
           [emptyDoc\<lparr> doc_id := Some ''spiegel_cl_a'', db_name := Some ''a'', dirty := Some False \<rparr>,
            emptyDoc\<lparr> doc_id := Some ''spiegel_cl_b'', db_name := Some ''b'', dirty := Some True \<rparr>,
            emptyDoc\<lparr> doc_id := Some ''spiegel_cl_c'', db_name := Some ''c'', dirty := Some True,
                      locked_at := Some 7 \<rparr>]
           [''a'', ''d'', ''b'', ''c'', ''d'']))"
proof -
  note t = claim_selects_clean_locked_or_missing
    [of "[emptyDoc\<lparr> doc_id := Some ''spiegel_cl_a'', db_name := Some ''a'', dirty := Some False \<rparr>,
          emptyDoc\<lparr> doc_id := Some ''spiegel_cl_b'', db_name := Some ''b'', dirty := Some True \<rparr>,
          emptyDoc\<lparr> doc_id := Some ''spiegel_cl_c'', db_name := Some ''c'', dirty := Some True,
                    locked_at := Some 7 \<rparr>]"
        "[''a'', ''d'', ''b'', ''c'', ''d'']" 1000]
  show ?thesis
  proof (rule conjI)
    show "getCleanLockedOrMissing
     [emptyDoc\<lparr> doc_id := Some ''spiegel_cl_a'', db_name := Some ''a'', dirty := Some False \<rparr>,
      emptyDoc\<lparr> doc_id := Some ''spiegel_cl_b'', db_name := Some ''b'', dirty := Some True \<rparr>,
      emptyDoc\<lparr> doc_id := Some ''spiegel_cl_c'', db_name := Some ''c'', dirty := Some True,
                locked_at := Some 7 \<rparr>]
     [''a'', ''d'', ''b'', ''c'', ''d'']
   = [emptyDoc\<lparr> doc_id := Some ''spiegel_cl_a'', db_name := Some ''a'', dirty := Some False \<rparr>,
      emptyDoc\<lparr> doc_id := Some ''spiegel_cl_c'', db_name := Some ''c'', dirty := Some True,
                locked_at := Some 7 \<rparr>,
      emptyDoc\<lparr> db_name := Some ''d'' \<rparr>]"
      unfolding t [THEN conjunct1] by (simp add: emptyDoc_def js_str_def)
  next
    show "emptyDoc\<lparr> doc_id := Some ''spiegel_cl_d'', doc_type := Some ''change_listener'',
                db_name := Some ''d'', dirty := Some True, updated_at := Some 1000 \<rparr>
       \<in> set (dirtyOrCreate 1000 (getCleanLockedOrMissing
           [emptyDoc\<lparr> doc_id := Some ''spiegel_cl_a'', db_name := Some ''a'', dirty := Some False \<rparr>,
            emptyDoc\<lparr> doc_id := Some ''spiegel_cl_b'', db_name := Some ''b'', dirty := Some True \<rparr>,
            emptyDoc\<lparr> doc_id := Some ''spiegel_cl_c'', db_name := Some ''c'', dirty := Some True,
                      locked_at := Some 7 \<rparr>]
           [''a'', ''d'', ''b'', ''c'', ''d'']))"
      using t [THEN conjunct2, THEN conjunct2, rule_format, of "''d''"]
      by (simp add: js_str_def idPrefix_def emptyDoc_def)
  qed
qed

subsection \<open>What dirtying an existing record changes\<close>

text \<open>
  C9. For a listener that already has an id (a record of the store, for instance one
  that is locked and clean), the document that \<^verbatim>\<open>_dirtyOrCreate\<close> writes is the
  listener with \<open>dirty\<close> set to true and \<open>updated_at\<close> refreshed: \<open>locked_at\<close>,
  \<open>last_seq\<close>, \<open>dirty_at\<close>, \<open>retries\<close> and the remaining fields are the listener's.
\<close>

theorem dirtying_existing_listener_frame:
  assumes "i < length listeners" and "doc_id (listeners ! i) = Some s" and "s \<noteq> []"
  shows "dirtyOrCreate now listeners ! i =
           (listeners ! i)\<lparr> dirty := Some True, updated_at := Some now \<rparr>
         \<and> dirty (dirtyOrCreate now listeners ! i) = Some True
         \<and> locked_at (dirtyOrCreate now listeners ! i) = locked_at (listeners ! i)
         \<and> last_seq (dirtyOrCreate now listeners ! i) = last_seq (listeners ! i)
         \<and> dirty_at (dirtyOrCreate now listeners ! i) = dirty_at (listeners ! i)
         \<and> retries (dirtyOrCreate now listeners ! i) = retries (listeners ! i)
         \<and> doc_id (dirtyOrCreate now listeners ! i) = doc_id (listeners ! i)
         \<and> doc_rev (dirtyOrCreate now listeners ! i) = doc_rev (listeners ! i)
         \<and> doc_type (dirtyOrCreate now listeners ! i) = doc_type (listeners ! i)
         \<and> db_name (dirtyOrCreate now listeners ! i) = db_name (listeners ! i)"
  using assms by (simp add: dirtyOrCreate_def dirtyOne_def truthy_str_def setUpdatedAt_def)

theorem dirtying_existing_listener_frame_witness:
  "dirtyOrCreate 1000
     [emptyDoc\<lparr> doc_id := Some ''spiegel_cl_a'', db_name := Some ''a'', dirty := Some False,
                locked_at := Some 7, last_seq := Some ''5'', retries := Some 2 \<rparr>] ! 0
   = emptyDoc\<lparr> doc_id := Some ''spiegel_cl_a'', db_name := Some ''a'', dirty := Some True,
                locked_at := Some 7, last_seq := Some ''5'', retries := Some 2,
                updated_at := Some 1000 \<rparr>"
  using dirtying_existing_listener_frame
    [of 0 "[emptyDoc\<lparr> doc_id := Some ''spiegel_cl_a'', db_name := Some ''a'', dirty := Some False,
                locked_at := Some 7, last_seq := Some ''5'', retries := Some 2 \<rparr>]"
        "''spiegel_cl_a''" 1000]
  by (simp add: emptyDoc_def)

subsection \<open>Conflicts\<close>

lemma obj_set_distinct:
  "distinct (map fst kvs) \<Longrightarrow> distinct (map fst (obj_set kvs k v))"
  unfolding obj_set_keys by simp

lemma obj_set_key_set: "fst ` set (obj_set kvs k v) = insert k (fst ` set kvs)"
proof -
  have "set (map fst (obj_set kvs k v)) = insert k (set (map fst kvs))"
    unfolding obj_set_keys by auto
  then show ?thesis by simp
qed

lemma collectConflicts_aligned:
  assumes "length resp = length docs"
  shows "\<exists>acc'. collectConflicts resp docs acc = Inr acc'
           \<and> fst ` set acc' = fst ` set acc \<union> {js_str (db_name d) | d. (Conflict, d) \<in> set (zip resp docs)}
           \<and> (distinct (map fst acc) \<longrightarrow> distinct (map fst acc'))"
  using assms
proof (induction resp docs acc rule: collectConflicts.induct)
  case (1 ls acc)
  then show ?case by simp
next
  case (2 d ds acc)
  then show ?case by simp
next
  case (3 d ds l ls acc)
  then have len: "length ds = length ls" by simp
  show ?case
  proof (cases "d = Conflict")
    case True
    from "3.IH" [OF len] obtain acc' where
      a: "collectConflicts ds ls (obj_set acc (js_str (db_name l)) True) = Inr acc'"
      and b: "fst ` set acc' = fst ` set (obj_set acc (js_str (db_name l)) True)
                \<union> {js_str (db_name d) | d. (Conflict, d) \<in> set (zip ds ls)}"
      and c: "distinct (map fst (obj_set acc (js_str (db_name l)) True)) \<longrightarrow> distinct (map fst acc')"
      using True by (auto simp: isConflictError_def)
    show ?thesis
      using a b c True obj_set_distinct [of acc "js_str (db_name l)" True]
      by (auto simp: isConflictError_def obj_set_key_set)
  next
    case False
    then have nc: "\<not> isConflictError d"
      by (cases d) (auto simp: isConflictError_def)
    from "3.IH" [OF len] obtain acc' where
      a: "collectConflicts ds ls acc = Inr acc'"
      and b: "fst ` set acc' = fst ` set acc \<union> {js_str (db_name d) | d. (Conflict, d) \<in> set (zip ds ls)}"
      and c: "distinct (map fst acc) \<longrightarrow> distinct (map fst acc')"
      using nc by auto
    show ?thesis
      using a b c nc False by auto
  qed
qed

lemma dirtyAndGetConflictedDBNames_aligned:
  assumes "length resp = length docs"
  shows "\<exists>names. dirtyAndGetConflictedDBNames docs resp = Inr names \<and> distinct names
           \<and> set names = {js_str (db_name d) | d. (Conflict, d) \<in> set (zip resp docs)}"
proof -
  from collectConflicts_aligned [OF assms, of "[]"] obtain acc' where
    a: "collectConflicts resp docs [] = Inr acc'"
    and b: "fst ` set acc' = {js_str (db_name d) | d. (Conflict, d) \<in> set (zip resp docs)}"
    and c: "distinct (map fst acc')"
    by auto
  show ?thesis
    using a b c by (simp add: dirtyAndGetConflictedDBNames_def obj_keys_def)
qed

lemma attempt_aligned:
  assumes "\<forall>docs. length (bulk r docs) = length docs"
  shows "\<exists>names. distinct names
           \<and> set names = {js_str (db_name d) | d.
                 (Conflict, d) \<in> set (zip (bulk r (dirtyOrCreate now (getCleanLockedOrMissing (view r dbNames) dbNames)))
                                        (dirtyOrCreate now (getCleanLockedOrMissing (view r dbNames) dbNames)))}
           \<and> attemptToDirtyIfCleanOrLocked now r dbNames calls =
               (if dirtyOrCreate now (getCleanLockedOrMissing (view r dbNames) dbNames) = []
                then (Inr None, calls @ [ViewByDBNames dbNames])
                else (Inr (Some names),
                      calls @ [ViewByDBNames dbNames,
                        BulkCreateOrUpdate (dirtyOrCreate now (getCleanLockedOrMissing (view r dbNames) dbNames))]))"
proof -
  define docs where "docs = dirtyOrCreate now (getCleanLockedOrMissing (view r dbNames) dbNames)"
  have len: "length (bulk r docs) = length docs"
    using assms by simp
  from dirtyAndGetConflictedDBNames_aligned [OF len] obtain names where
    a: "dirtyAndGetConflictedDBNames docs (bulk r docs) = Inr names"
    and b: "distinct names"
    and c: "set names = {js_str (db_name d) | d. (Conflict, d) \<in> set (zip (bulk r docs) docs)}"
    by blast
  have e: "(getCleanLockedOrMissing (view r dbNames) dbNames = []) = (docs = [])"
    by (simp add: docs_def dirtyOrCreate_def)
  have "attemptToDirtyIfCleanOrLocked now r dbNames calls =
          (if docs = [] then (Inr None, calls @ [ViewByDBNames dbNames])
           else (Inr (Some names), calls @ [ViewByDBNames dbNames, BulkCreateOrUpdate docs]))"
    using a e by (simp add: attemptToDirtyIfCleanOrLocked_def Let_def docs_def [symmetric])
  then show ?thesis
    using b c unfolding docs_def by blast
qed

lemma claim_round:
  assumes "\<forall>docs. length (bulk r docs) = length docs"
  shows "\<exists>names. distinct names
           \<and> set names = {js_str (db_name d) | d.
                 (Conflict, d) \<in> set (zip (bulk r (dirtyOrCreate now (getCleanLockedOrMissing (view r dbNames) dbNames)))
                                        (dirtyOrCreate now (getCleanLockedOrMissing (view r dbNames) dbNames)))}
           \<and> dirtyIfCleanOrLocked now (r # rs) dbNames calls =
               (if names = []
                then (Some (Inr ()),
                      calls @ ViewByDBNames dbNames #
                        (if dirtyOrCreate now (getCleanLockedOrMissing (view r dbNames) dbNames) = [] then []
                         else [BulkCreateOrUpdate (dirtyOrCreate now (getCleanLockedOrMissing (view r dbNames) dbNames))]))
                else dirtyIfCleanOrLocked now rs names
                       (calls @ [ViewByDBNames dbNames,
                          BulkCreateOrUpdate (dirtyOrCreate now (getCleanLockedOrMissing (view r dbNames) dbNames))]))"
proof -
  from attempt_aligned [OF assms, of now dbNames calls] obtain names where
    b: "distinct names"
    and c: "set names = {js_str (db_name d) | d.
                 (Conflict, d) \<in> set (zip (bulk r (dirtyOrCreate now (getCleanLockedOrMissing (view r dbNames) dbNames)))
                                        (dirtyOrCreate now (getCleanLockedOrMissing (view r dbNames) dbNames)))}"
    and a: "attemptToDirtyIfCleanOrLocked now r dbNames calls =
               (if dirtyOrCreate now (getCleanLockedOrMissing (view r dbNames) dbNames) = []
                then (Inr None, calls @ [ViewByDBNames dbNames])
                else (Inr (Some names),
                      calls @ [ViewByDBNames dbNames,
                        BulkCreateOrUpdate (dirtyOrCreate now (getCleanLockedOrMissing (view r dbNames) dbNames))]))"
    by blast
  have d: "dirtyOrCreate now (getCleanLockedOrMissing (view r dbNames) dbNames) = [] \<Longrightarrow> names = []"
    using c by simp
  have "dirtyIfCleanOrLocked now (r # rs) dbNames calls =
               (if names = []
                then (Some (Inr ()),
                      calls @ ViewByDBNames dbNames #
                        (if dirtyOrCreate now (getCleanLockedOrMissing (view r dbNames) dbNames) = [] then []
                         else [BulkCreateOrUpdate (dirtyOrCreate now (getCleanLockedOrMissing (view r dbNames) dbNames))]))
                else dirtyIfCleanOrLocked now rs names
                       (calls @ [ViewByDBNames dbNames,
                          BulkCreateOrUpdate (dirtyOrCreate now (getCleanLockedOrMissing (view r dbNames) dbNames))]))"
    using a d by (cases "dirtyOrCreate now (getCleanLockedOrMissing (view r dbNames) dbNames) = []") auto
  then show ?thesis
    using b c by blast
qed

lemma claim_no_error:
  assumes "\<forall>q \<in> set rounds. \<forall>docs. length (bulk q docs) = length docs"
  shows "fst (dirtyIfCleanOrLocked now rounds dbNames calls) \<noteq> Some (Inl e)"
  using assms
proof (induction rounds arbitrary: dbNames calls)
  case Nil
  then show ?case by simp
next
  case (Cons r rs)
  then have r: "\<forall>docs. length (bulk r docs) = length docs"
    and rs: "\<forall>q \<in> set rs. \<forall>docs. length (bulk q docs) = length docs"
    by simp_all
  from claim_round [OF r, of now dbNames rs calls] obtain names where
    a: "dirtyIfCleanOrLocked now (r # rs) dbNames calls =
               (if names = []
                then (Some (Inr ()),
                      calls @ ViewByDBNames dbNames #
                        (if dirtyOrCreate now (getCleanLockedOrMissing (view r dbNames) dbNames) = [] then []
                         else [BulkCreateOrUpdate (dirtyOrCreate now (getCleanLockedOrMissing (view r dbNames) dbNames))]))
                else dirtyIfCleanOrLocked now rs names
                       (calls @ [ViewByDBNames dbNames,
                          BulkCreateOrUpdate (dirtyOrCreate now (getCleanLockedOrMissing (view r dbNames) dbNames))]))"
    by blast
  show ?case
    unfolding a using Cons.IH [OF rs] by simp
qed

lemma claim_converges:
  assumes "\<forall>q \<in> set (r # rs). \<forall>docs. length (bulk q docs) = length docs"
    and "\<forall>docs. Conflict \<notin> set (bulk (last (r # rs)) docs)"
  shows "fst (dirtyIfCleanOrLocked now (r # rs) dbNames calls) = Some (Inr ())"
  using assms
proof (induction rs arbitrary: r dbNames calls)
  case Nil
  then have r: "\<forall>docs. length (bulk r docs) = length docs"
    and quiet: "\<forall>docs. Conflict \<notin> set (bulk r docs)"
    by simp_all
  from claim_round [OF r, of now dbNames "[]" calls] obtain names where
    c: "set names = {js_str (db_name d) | d.
                 (Conflict, d) \<in> set (zip (bulk r (dirtyOrCreate now (getCleanLockedOrMissing (view r dbNames) dbNames)))
                                        (dirtyOrCreate now (getCleanLockedOrMissing (view r dbNames) dbNames)))}"
    and a: "dirtyIfCleanOrLocked now [r] dbNames calls =
               (if names = []
                then (Some (Inr ()),
                      calls @ ViewByDBNames dbNames #
                        (if dirtyOrCreate now (getCleanLockedOrMissing (view r dbNames) dbNames) = [] then []
                         else [BulkCreateOrUpdate (dirtyOrCreate now (getCleanLockedOrMissing (view r dbNames) dbNames))]))
                else dirtyIfCleanOrLocked now [] names
                       (calls @ [ViewByDBNames dbNames,
                          BulkCreateOrUpdate (dirtyOrCreate now (getCleanLockedOrMissing (view r dbNames) dbNames))]))"
    by blast
  have "set names = {}"
    unfolding c using quiet by (auto dest: set_zip_leftD)
  then show ?case
    unfolding a by simp
next
  case (Cons r' rs)
  then have r: "\<forall>docs. length (bulk r docs) = length docs"
    and rs: "\<forall>q \<in> set (r' # rs). \<forall>docs. length (bulk q docs) = length docs"
    and quiet: "\<forall>docs. Conflict \<notin> set (bulk (last (r' # rs)) docs)"
    by simp_all
  from claim_round [OF r, of now dbNames "r' # rs" calls] obtain names where
    a: "dirtyIfCleanOrLocked now (r # r' # rs) dbNames calls =
               (if names = []
                then (Some (Inr ()),
                      calls @ ViewByDBNames dbNames #
                        (if dirtyOrCreate now (getCleanLockedOrMissing (view r dbNames) dbNames) = [] then []
                         else [BulkCreateOrUpdate (dirtyOrCreate now (getCleanLockedOrMissing (view r dbNames) dbNames))]))
                else dirtyIfCleanOrLocked now (r' # rs) names
                       (calls @ [ViewByDBNames dbNames,
                          BulkCreateOrUpdate (dirtyOrCreate now (getCleanLockedOrMissing (view r dbNames) dbNames))]))"
    by blast
  show ?case
    unfolding a using Cons.IH [OF rs quiet] by simp
qed

text \<open>
  C6. Let every store answer a bulk write with one result per document. After the bulk
  write of a round, the names collected are exactly the database names of the documents
  whose result is a conflict, each once. When there is none the protocol returns; otherwise
  it continues with the next round on exactly these names. Whatever the conflicts, the
  protocol never returns an error; and it returns normally within the given rounds as soon
  as the store reports no conflict in the last of them.
\<close>

theorem conflicts_collected_and_retried:
  assumes "\<forall>q \<in> set (r # rs). \<forall>docs. length (bulk q docs) = length docs"
  shows "(\<exists>names. distinct names
           \<and> set names = {js_str (db_name d) | d.
                 (Conflict, d) \<in> set (zip (bulk r (dirtyOrCreate now (getCleanLockedOrMissing (view r dbNames) dbNames)))
                                        (dirtyOrCreate now (getCleanLockedOrMissing (view r dbNames) dbNames)))}
           \<and> dirtyIfCleanOrLocked now (r # rs) dbNames calls =
               (if names = []
                then (Some (Inr ()),
                      calls @ ViewByDBNames dbNames #
                        (if dirtyOrCreate now (getCleanLockedOrMissing (view r dbNames) dbNames) = [] then []
                         else [BulkCreateOrUpdate (dirtyOrCreate now (getCleanLockedOrMissing (view r dbNames) dbNames))]))
                else dirtyIfCleanOrLocked now rs names
                       (calls @ [ViewByDBNames dbNames,
                          BulkCreateOrUpdate (dirtyOrCreate now (getCleanLockedOrMissing (view r dbNames) dbNames))])))
       \<and> (\<forall>e. fst (dirtyIfCleanOrLocked now (r # rs) dbNames calls) \<noteq> Some (Inl e))
       \<and> ((\<forall>docs. Conflict \<notin> set (bulk (last (r # rs)) docs)) \<longrightarrow>
            fst (dirtyIfCleanOrLocked now (r # rs) dbNames calls) = Some (Inr ()))"
proof (intro conjI allI impI)
  have r: "\<forall>docs. length (bulk r docs) = length docs"
    using assms by simp
  show "\<exists>names. distinct names
           \<and> set names = {js_str (db_name d) | d.
                 (Conflict, d) \<in> set (zip (bulk r (dirtyOrCreate now (getCleanLockedOrMissing (view r dbNames) dbNames)))
                                        (dirtyOrCreate now (getCleanLockedOrMissing (view r dbNames) dbNames)))}
           \<and> dirtyIfCleanOrLocked now (r # rs) dbNames calls =
               (if names = []
                then (Some (Inr ()),
                      calls @ ViewByDBNames dbNames #
                        (if dirtyOrCreate now (getCleanLockedOrMissing (view r dbNames) dbNames) = [] then []
                         else [BulkCreateOrUpdate (dirtyOrCreate now (getCleanLockedOrMissing (view r dbNames) dbNames))]))
                else dirtyIfCleanOrLocked now rs names
                       (calls @ [ViewByDBNames dbNames,
                          BulkCreateOrUpdate (dirtyOrCreate now (getCleanLockedOrMissing (view r dbNames) dbNames))]))"
    by (rule claim_round [OF r])
next
  fix e
  show "fst (dirtyIfCleanOrLocked now (r # rs) dbNames calls) \<noteq> Some (Inl e)"
    by (rule claim_no_error [OF assms])
next
  assume "\<forall>docs. Conflict \<notin> set (bulk (last (r # rs)) docs)"
  then show "fst (dirtyIfCleanOrLocked now (r # rs) dbNames calls) = Some (Inr ())"
    by (rule claim_converges [OF assms])
qed

theorem conflicts_collected_and_retried_witness:
  "fst (dirtyIfCleanOrLocked 1000
     [\<lparr> view = (\<lambda>keys. []),
        bulk = map (\<lambda>d. if db_name d = Some ''a'' then Conflict else Written) \<rparr>,
      \<lparr> view = (\<lambda>keys. [\<lparr> doc_id = Some ''spiegel_cl_a'', doc_rev = Some 1,
                          doc_type = Some ''change_listener'', db_name = Some ''a'',
                          dirty = Some False, dirty_at = None, locked_at = None,
                          last_seq = None, retries = None, updated_at = Some 990 \<rparr>]),
        bulk = map (\<lambda>d. Written) \<rparr>]
     [''a'', ''b''] []) = Some (Inr ())"
proof -
  have aligned: "\<forall>q \<in> set
     [\<lparr> view = (\<lambda>keys. []),
        bulk = map (\<lambda>d. if db_name d = Some ''a'' then Conflict else Written) \<rparr>,
      \<lparr> view = (\<lambda>keys. [\<lparr> doc_id = Some ''spiegel_cl_a'', doc_rev = Some 1,
                          doc_type = Some ''change_listener'', db_name = Some ''a'',
                          dirty = Some False, dirty_at = None, locked_at = None,
                          last_seq = None, retries = None, updated_at = Some 990 \<rparr>]),
        bulk = map (\<lambda>d. Written) \<rparr>]. \<forall>docs. length (bulk q docs) = length docs"
    by simp
  have quiet: "\<forall>docs. Conflict \<notin> set (bulk (last
     [\<lparr> view = (\<lambda>keys. []),
        bulk = map (\<lambda>d. if db_name d = Some ''a'' then Conflict else Written) \<rparr>,
      \<lparr> view = (\<lambda>keys. [\<lparr> doc_id = Some ''spiegel_cl_a'', doc_rev = Some 1,
                          doc_type = Some ''change_listener'', db_name = Some ''a'',
                          dirty = Some False, dirty_at = None, locked_at = None,
                          last_seq = None, retries = None, updated_at = Some 990 \<rparr>]),
        bulk = map (\<lambda>d. Written) \<rparr>]) docs)"
    by auto
  from conflicts_collected_and_retried [OF aligned] quiet show ?thesis
    by blast
qed

section \<open>Properties of the merge-upsert\<close>

lemma next_rev_neq: "next_rev r \<noteq> r"
  by (cases r) (auto simp: next_rev_def)

lemma merged_rev: "doc_rev (merged st i p) = current_rev st i"
  by (simp add: merged_def merge_doc_def current_rev_def split: option.splits)

lemma put_merged:
  "put st i (merged st i p) =
     Some (st(i \<mapsto> (merged st i p)\<lparr> doc_id := Some i, doc_rev := next_rev (current_rev st i) \<rparr>))"
  by (simp add: put_def merged_rev)

lemma put_after_other_write:
  assumes "st i = Some d"
  shows "put (other_write f i st) i (merged st i p) = None"
  using assms next_rev_neq [of "doc_rev d"]
  by (auto simp: put_def merged_def merge_doc_def other_write_def current_rev_def)

lemma other_write_absent: "st i = None \<Longrightarrow> other_write f i st = st"
  by (simp add: other_write_def)

lemma fold_other_write_absent:
  "st i = None \<Longrightarrow> fold (\<lambda>f. other_write f i) fs st = st"
  by (induction fs) (simp_all add: other_write_absent)

lemma mergeUpsertLoop_eq:
  "mergeUpsertLoop fs st i p =
     (fold (\<lambda>f. other_write f i) fs st)
       (i \<mapsto> (merged (fold (\<lambda>f. other_write f i) fs st) i p)
              \<lparr> doc_id := Some i,
                doc_rev := next_rev (current_rev (fold (\<lambda>f. other_write f i) fs st) i) \<rparr>)"
proof (induction fs arbitrary: st)
  case Nil
  show ?case by (simp add: put_merged)
next
  case (Cons f fs)
  show ?case
  proof (cases "st i")
    case None
    then have same: "other_write f i st = st"
      by (rule other_write_absent)
    have "fold (\<lambda>f. other_write f i) (f # fs) st = st"
      using None by (rule fold_other_write_absent)
    then show ?thesis
      by (simp add: same put_merged)
  next
    case (Some d)
    then show ?thesis
      by (simp add: put_after_other_write Cons.IH)
  qed
qed

lemma other_write_others: "j \<noteq> i \<Longrightarrow> other_write f i st j = st j"
  by (simp add: other_write_def split: option.splits)

lemma fold_other_write_others:
  "j \<noteq> i \<Longrightarrow> fold (\<lambda>f. other_write f i) fs st j = st j"
  by (induction fs arbitrary: st) (simp_all add: other_write_others)

lemma fold_other_write_present:
  assumes "st i = Some d" and "doc_id d = Some i"
  shows "\<exists>d'. fold (\<lambda>f. other_write f i) fs st i = Some d' \<and> doc_id d' = Some i"
  using assms
proof (induction fs arbitrary: st d)
  case Nil
  then show ?case by simp
next
  case (Cons f fs)
  have "other_write f i st i = Some ((f d)\<lparr> doc_id := doc_id d, doc_rev := next_rev (doc_rev d) \<rparr>)"
    using Cons.prems by (simp add: other_write_def)
  moreover have "doc_id ((f d)\<lparr> doc_id := doc_id d, doc_rev := next_rev (doc_rev d) \<rparr>) = Some i"
    using Cons.prems by simp
  ultimately show ?case
    using Cons.IH by simp
qed

lemma getMergeUpsert_lastSeqDoc:
  assumes "st i = Some d" and "doc_id d = Some i"
  shows "\<exists>d'. fold (\<lambda>f. other_write f i) fs st i = Some d' \<and>
           getMergeUpsert fs st (lastSeqDoc (Some i) s) =
             (fold (\<lambda>f. other_write f i) fs st)
               (i \<mapsto> d'\<lparr> last_seq := Some s, doc_rev := next_rev (doc_rev d') \<rparr>)"
proof -
  from fold_other_write_present [of st i d fs, OF assms] obtain d' where
    a: "fold (\<lambda>f. other_write f i) fs st i = Some d'" and b: "doc_id d' = Some i"
    by blast
  have "(merged (fold (\<lambda>f. other_write f i) fs st) i (lastSeqDoc (Some i) s))
          \<lparr> doc_id := Some i,
            doc_rev := next_rev (current_rev (fold (\<lambda>f. other_write f i) fs st) i) \<rparr>
        = d'\<lparr> last_seq := Some s, doc_rev := next_rev (doc_rev d') \<rparr>"
    using a b
    by (simp add: merged_def merge_doc_def lastSeqDoc_def emptyDoc_def field_or_def current_rev_def)
  then show ?thesis
    using a by (simp add: getMergeUpsert_def lastSeqDoc_def mergeUpsertLoop_eq)
qed


lemma getMergeUpsert_others:
  "j \<noteq> i \<Longrightarrow> getMergeUpsert fs st (lastSeqDoc (Some i) s) j = st j"
  by (simp add: getMergeUpsert_def lastSeqDoc_def mergeUpsertLoop_eq fold_other_write_others)

text \<open>
  C10. The document that \<^verbatim>\<open>_updateLastSeq\<close> hands to the merge-upsert carries the id and
  \<open>last_seq\<close> and nothing else. For a record of the store, and for every finite sequence
  of writes by other processes that make attempts conflict, the record afterwards is the
  one those writes left, with \<open>last_seq\<close> set to the new value and the next revision:
  the other fields are kept, the writes of the others are kept, and the new \<open>last_seq\<close>
  is stored. No other document is touched.
\<close>

theorem lastSeq_write_is_partial_and_merged:
  assumes "store w i = Some d" and "doc_id d = Some i"
  shows "lastSeqDoc (Some i) s =
           \<lparr> doc_id = Some i, doc_rev = None, doc_type = None, db_name = None, dirty = None,
             dirty_at = None, locked_at = None, last_seq = Some s, retries = None,
             updated_at = None \<rparr>
         \<and> (\<exists>d'. fold (\<lambda>f. other_write f i) (racing E) (store w) i = Some d'
               \<and> store (updateLastSeq E (Some i) s w) i =
                   Some (d'\<lparr> last_seq := Some s, doc_rev := next_rev (doc_rev d') \<rparr>))
         \<and> (racing E = [] \<longrightarrow>
               store (updateLastSeq E (Some i) s w) i =
                 Some (d\<lparr> last_seq := Some s, doc_rev := next_rev (doc_rev d) \<rparr>))
         \<and> (\<forall>j. j \<noteq> i \<longrightarrow> store (updateLastSeq E (Some i) s w) j = store w j)"
proof (intro conjI allI impI)
  show "lastSeqDoc (Some i) s =
           \<lparr> doc_id = Some i, doc_rev = None, doc_type = None, db_name = None, dirty = None,
             dirty_at = None, locked_at = None, last_seq = Some s, retries = None,
             updated_at = None \<rparr>"
    by (simp add: lastSeqDoc_def emptyDoc_def)
next
  from getMergeUpsert_lastSeqDoc [of "store w" i d "racing E" s, OF assms] obtain d' where
    a: "fold (\<lambda>f. other_write f i) (racing E) (store w) i = Some d'"
    and b: "getMergeUpsert (racing E) (store w) (lastSeqDoc (Some i) s) =
             (fold (\<lambda>f. other_write f i) (racing E) (store w))
               (i \<mapsto> d'\<lparr> last_seq := Some s, doc_rev := next_rev (doc_rev d') \<rparr>)"
    by blast
  show "\<exists>d'. fold (\<lambda>f. other_write f i) (racing E) (store w) i = Some d'
               \<and> store (updateLastSeq E (Some i) s w) i =
                   Some (d'\<lparr> last_seq := Some s, doc_rev := next_rev (doc_rev d') \<rparr>)"
    using a b by (simp add: updateLastSeq_def)
next
  assume quiet: "racing E = []"
  from getMergeUpsert_lastSeqDoc [of "store w" i d "[]" s, OF assms]
  show "store (updateLastSeq E (Some i) s w) i =
          Some (d\<lparr> last_seq := Some s, doc_rev := next_rev (doc_rev d) \<rparr>)"
    using assms by (simp add: updateLastSeq_def quiet)
next
  fix j
  assume "j \<noteq> i"
  then show "store (updateLastSeq E (Some i) s w) j = store w j"
    by (simp add: updateLastSeq_def getMergeUpsert_others)
qed

theorem lastSeq_write_is_partial_and_merged_witness:
  "store (updateLastSeq ((envA (Num 0))\<lparr> racing := [dirtiedByOther] \<rparr>) (Some ''spiegel_cl_a'') ''9'' worldA)
     ''spiegel_cl_a''
   = Some \<lparr> doc_id = Some ''spiegel_cl_a'', doc_rev = Some 5,
       doc_type = Some ''change_listener'', db_name = Some ''a'', dirty = Some True,
       dirty_at = None, locked_at = Some 900, last_seq = Some ''9'', retries = None,
       updated_at = Some 1001 \<rparr>"
  using lastSeq_write_is_partial_and_merged
    [of worldA "''spiegel_cl_a''" listenerA "''9''" "(envA (Num 0))\<lparr> racing := [dirtiedByOther] \<rparr>"]
  by (simp add: worldA_def listenerA_def envA_def dirtiedByOther_def other_write_def next_rev_def)

section \<open>Properties of the retry scheduler\<close>

text \<open>
  C4. With \<open>r\<close> the retry count of the record (0 when absent): when the backoff policy
  reports the limit reached for \<open>r\<close>, \<open>retries\<close> becomes 0, \<open>dirty_at\<close> is left as
  it was, and nothing is persisted or notified. Otherwise \<open>dirty_at\<close> becomes the clock
  plus the policy's delay for \<open>r\<close> in seconds, \<open>retries\<close> becomes \<open>r + 1\<close>, the record
  is persisted (the stored record then carries both), and the wake-up mechanism is given
  the new \<open>dirty_at\<close>.
\<close>

theorem scheduleRetry_backoff:
  "(hasReachedRetryLimit E (case retries item of None \<Rightarrow> 0 | Some r \<Rightarrow> r) \<longrightarrow>
      scheduleRetry E item w = (item\<lparr> retries := Some 0 \<rparr>, w)
      \<and> dirty_at (fst (scheduleRetry E item w)) = dirty_at item)
   \<and> (\<not> hasReachedRetryLimit E (case retries item of None \<Rightarrow> 0 | Some r \<Rightarrow> r) \<longrightarrow>
      (let r = (case retries item of None \<Rightarrow> 0 | Some r \<Rightarrow> r);
           t = js_trunc (of_int (clock E) + getDelaySecs E r * 1000);
           item' = item\<lparr> dirty_at := Some t, retries := Some (r + 1) \<rparr>
       in scheduleRetry E item w =
            (item', w\<lparr> store := getMergeUpsert [] (store w) item', soiler := soiler w @ [t] \<rparr>)
          \<and> (\<forall>i d. doc_id item = Some i \<and> store w i = Some d \<longrightarrow>
                (\<exists>d'. store (snd (scheduleRetry E item w)) i = Some d'
                   \<and> dirty_at d' = Some t \<and> retries d' = Some (r + 1)))))"
proof -
  have r: "retriesOf item = (case retries item of None \<Rightarrow> 0 | Some r \<Rightarrow> r)"
    by (simp add: retriesOf_def truthy_num_def split: option.splits)
  show ?thesis
    by (auto simp: scheduleRetry_def r Let_def clearRetries_def setDirtyAt_def retryTime_def
        queueSoiler_def updateItem_def getMergeUpsert_def mergeUpsertLoop_eq merged_def
        merge_doc_def field_or_def)
qed

theorem scheduleRetry_backoff_witness:
  "scheduleRetry (envA (Num 0)) listenerA worldA =
     (listenerA\<lparr> dirty_at := Some 6000, retries := Some 1 \<rparr>,
      worldA\<lparr> store := getMergeUpsert [] (store worldA) (listenerA\<lparr> dirty_at := Some 6000, retries := Some 1 \<rparr>),
              soiler := [6000] \<rparr>)
   \<and> scheduleRetry ((envA (Num 0))\<lparr> hasReachedRetryLimit := (\<lambda>r. 3 \<le> r) \<rparr>)
       (listenerA\<lparr> retries := Some 3 \<rparr>) worldA =
     (listenerA\<lparr> retries := Some 0 \<rparr>, worldA)"
proof
  have t: "js_trunc 6000 = 6000"
    by (simp add: js_trunc_def)
  show "scheduleRetry (envA (Num 0)) listenerA worldA =
     (listenerA\<lparr> dirty_at := Some 6000, retries := Some 1 \<rparr>,
      worldA\<lparr> store := getMergeUpsert [] (store worldA) (listenerA\<lparr> dirty_at := Some 6000, retries := Some 1 \<rparr>),
              soiler := [6000] \<rparr>)"
    using scheduleRetry_backoff [of "envA (Num 0)" listenerA worldA, THEN conjunct2]
    by (simp add: envA_def listenerA_def worldA_def Let_def t)
next
  show "scheduleRetry ((envA (Num 0))\<lparr> hasReachedRetryLimit := (\<lambda>r. 3 \<le> r) \<rparr>)
       (listenerA\<lparr> retries := Some 3 \<rparr>) worldA =
     (listenerA\<lparr> retries := Some 0 \<rparr>, worldA)"
    using scheduleRetry_backoff
      [of "(envA (Num 0))\<lparr> hasReachedRetryLimit := (\<lambda>r. 3 \<le> r) \<rparr>"
          "listenerA\<lparr> retries := Some 3 \<rparr>" worldA, THEN conjunct1]
    by (simp add: envA_def)
qed

section \<open>Properties of the batch engine\<close>

subsection \<open>The chain, the join and the shape of a batch\<close>

lemma processChain_world:
  "processChain E dbName cs requests w = (res, w') \<Longrightarrow>
     store w' = store w \<and> reported w' = reported w \<and> soiler w' = soiler w
       \<and> resumed_at w' = resumed_at w"
proof (induction cs arbitrary: requests w)
  case Nil
  then show ?case by auto
next
  case (Cons c cs)
  show ?case
  proof (cases "processChange E c dbName requests")
    case (Pair new failed)
    show ?thesis
    proof (cases failed)
      case None
      with Pair Cons.prems have
        "processChain E dbName cs (requests @ new) (w\<lparr> observed := observed w @ [(c, dbName)] \<rparr>) = (res, w')"
        by simp
      from Cons.IH [OF this] show ?thesis by simp
    next
      case (Some e)
      with Pair Cons.prems show ?thesis by auto
    qed
  qed
qed

lemma processChain_observes_in_order:
  "processChain E dbName cs requests w = (res, w') \<Longrightarrow>
     \<exists>k \<le> length cs. observed w' = observed w @ map (\<lambda>c. (c, dbName)) (take k cs)
        \<and> (\<forall>requests'. res = Inr requests' \<longrightarrow> k = length cs)"
proof (induction cs arbitrary: requests w)
  case Nil
  then show ?case by auto
next
  case (Cons c cs)
  show ?case
  proof (cases "processChange E c dbName requests")
    case (Pair new failed)
    show ?thesis
    proof (cases failed)
      case None
      with Pair Cons.prems have
        "processChain E dbName cs (requests @ new) (w\<lparr> observed := observed w @ [(c, dbName)] \<rparr>) = (res, w')"
        by simp
      from Cons.IH [OF this] obtain k where
        k: "k \<le> length cs"
        and o: "observed w' = observed w @ [(c, dbName)] @ map (\<lambda>c. (c, dbName)) (take k cs)"
        and f: "\<forall>requests'. res = Inr requests' \<longrightarrow> k = length cs"
        by auto
      show ?thesis
        by (rule exI [of _ "Suc k"]) (use k o f in simp)
    next
      case (Some e)
      with Pair Cons.prems have "res = Inl e" and "observed w' = observed w @ [(c, dbName)]"
        by auto
      then show ?thesis
        by (intro exI [of _ 1]) simp
    qed
  qed
qed

lemma firstRejection_None_iff:
  "firstRejection qs = None \<longleftrightarrow> (\<forall>q \<in> set qs. failure q = None)"
  by (induction qs) (auto split: option.splits prod.splits if_splits)

lemma firstRejection_earliest:
  "firstRejection qs = Some (t, e) \<Longrightarrow>
     (\<exists>q \<in> set qs. settles_at q = t \<and> failure q = Some e)
     \<and> (\<forall>q \<in> set qs. failure q \<noteq> None \<longrightarrow> t \<le> settles_at q)"
proof (induction qs arbitrary: t e)
  case Nil
  then show ?case by simp
next
  case (Cons q qs)
  show ?case
  proof (cases "failure q")
    case None
    with Cons.prems have "firstRejection qs = Some (t, e)" by simp
    from Cons.IH [OF this] None show ?thesis by auto
  next
    case (Some e1)
    show ?thesis
    proof (cases "firstRejection qs")
      case None
      then have "\<forall>q \<in> set qs. failure q = None"
        by (simp add: firstRejection_None_iff)
      with Some None Cons.prems show ?thesis by auto
    next
      case (Some te)
      obtain t' e' where te: "te = (t', e')" by (cases te)
      note ih = Cons.IH [OF Some [unfolded te]]
      show ?thesis
        using Cons.prems \<open>failure q = Some e1\<close> Some te ih
        by (auto split: if_splits)
    qed
  qed
qed

lemma lastSettlement_upper: "q \<in> set qs \<Longrightarrow> settles_at q \<le> lastSettlement qs"
  by (induction qs) (auto simp: lastSettlement_def)

lemma processBatch_all_fulfilled:
  assumes fetch: "changesForListener E listener = Inr changes"
    and chain: "processChain E (db_name listener) (results changes) [] w = (Inr requests, w1)"
    and ok: "\<forall>q \<in> set requests. failure q = None"
  shows "processBatchOfChanges E listener w =
           (Inr (truthy (pending changes)), listener,
            if dirty_at listener = None
            then updateLastSeq E (doc_id listener) (page_last_seq changes)
                   (w1\<lparr> resumed_at := Some (lastSettlement requests) \<rparr>)
            else w1\<lparr> resumed_at := Some (lastSettlement requests) \<rparr>)"
proof -
  have "firstRejection requests = None"
    using ok by (simp add: firstRejection_None_iff)
  then show ?thesis
    using fetch chain
    by (simp add: processBatchOfChanges_def processChanges_def waitForRequests_def
        promiseAll_def moreBatches_def truthy_ts_def split: option.splits)
qed

lemma processBatch_api_rejection:
  assumes fetch: "changesForListener E listener = Inr changes"
    and chain: "processChain E (db_name listener) (results changes) [] w = (Inr requests, w1)"
    and rej: "firstRejection requests = Some (t, e)"
    and api: "isApiRequestError e"
  shows "processBatchOfChanges E listener w =
           (Inr (truthy (pending changes)),
            fst (scheduleRetry E listener (onError e (w1\<lparr> resumed_at := Some t \<rparr>))),
            if dirty_at (fst (scheduleRetry E listener (onError e (w1\<lparr> resumed_at := Some t \<rparr>)))) = None
            then updateLastSeq E
                   (doc_id (fst (scheduleRetry E listener (onError e (w1\<lparr> resumed_at := Some t \<rparr>)))))
                   (page_last_seq changes)
                   (snd (scheduleRetry E listener (onError e (w1\<lparr> resumed_at := Some t \<rparr>))))
            else snd (scheduleRetry E listener (onError e (w1\<lparr> resumed_at := Some t \<rparr>))))"
  using fetch chain rej api
  by (simp add: processBatchOfChanges_def processChanges_def waitForRequests_def
      promiseAll_def moreBatches_def truthy_ts_def Let_def split: option.splits prod.splits)

lemma processBatch_other_rejection:
  assumes fetch: "changesForListener E listener = Inr changes"
    and chain: "processChain E (db_name listener) (results changes) [] w = (Inr requests, w1)"
    and rej: "firstRejection requests = Some (t, e)"
    and other: "\<not> isApiRequestError e"
  shows "processBatchOfChanges E listener w =
           (Inl e, listener, w1\<lparr> reported := reported w1 @ [e], resumed_at := Some t \<rparr>)"
  using fetch chain rej other
  by (simp add: processBatchOfChanges_def processChanges_def waitForRequests_def
      promiseAll_def onError_def Let_def)

lemma retriesOf_eq: "retriesOf item = (case retries item of None \<Rightarrow> 0 | Some r \<Rightarrow> r)"
  by (simp add: retriesOf_def truthy_num_def split: option.splits)

lemma scheduleRetry_limit:
  "hasReachedRetryLimit E (case retries item of None \<Rightarrow> 0 | Some r \<Rightarrow> r) \<Longrightarrow>
     scheduleRetry E item w = (item\<lparr> retries := Some 0 \<rparr>, w)"
  by (simp add: scheduleRetry_def retriesOf_eq clearRetries_def)

lemma scheduleRetry_delay:
  "\<not> hasReachedRetryLimit E (case retries item of None \<Rightarrow> 0 | Some r \<Rightarrow> r) \<Longrightarrow>
     scheduleRetry E item w =
       (item\<lparr> dirty_at := Some (retryTime E (case retries item of None \<Rightarrow> 0 | Some r \<Rightarrow> r)),
              retries := Some (Suc (case retries item of None \<Rightarrow> 0 | Some r \<Rightarrow> r)) \<rparr>,
        w\<lparr> store := getMergeUpsert [] (store w)
                      (item\<lparr> dirty_at := Some (retryTime E (case retries item of None \<Rightarrow> 0 | Some r \<Rightarrow> r)),
                             retries := Some (Suc (case retries item of None \<Rightarrow> 0 | Some r \<Rightarrow> r)) \<rparr>),
           soiler := soiler w @ [retryTime E (case retries item of None \<Rightarrow> 0 | Some r \<Rightarrow> r)] \<rparr>)"
  by (simp add: scheduleRetry_def retriesOf_eq Let_def setDirtyAt_def queueSoiler_def updateItem_def)

lemma persist_keeps_last_seq:
  assumes "doc_id item = Some i" and "st i = Some d" and "last_seq item = last_seq d"
  shows "\<exists>d'. getMergeUpsert [] st item i = Some d' \<and> last_seq d' = last_seq d"
  using assms
  by (simp add: getMergeUpsert_def mergeUpsertLoop_eq merged_def merge_doc_def field_or_def
      split: option.splits)

lemma processBatch_returns:
  "processBatchOfChanges E listener w = (Inr b, l', w') \<Longrightarrow>
     \<exists>changes. changesForListener E listener = Inr changes \<and> b = truthy (pending changes)"
  by (auto simp: processBatchOfChanges_def moreBatches_def split: sum.splits prod.splits)

lemma logError_awaits_without_returning:
  "processBatchOfChanges E listener w = (Inr b, l', w') \<Longrightarrow>
     processBatchOfChangesLogError E listener w = (Inr None, l', w')"
  by (simp add: processBatchOfChangesLogError_def)

lemma logError_catches:
  "processBatchOfChanges E listener w = (Inl e, l', w') \<Longrightarrow>
     processBatchOfChangesLogError E listener w =
       (if isDatabaseNotFoundError e then (Inl e, l', w')
        else (Inr (Some True), l', w'\<lparr> reported := reported w' @ [e] \<rparr>))"
  by (simp add: processBatchOfChangesLogError_def onError_def)

subsection \<open>Order of dispatch and the join\<close>

text \<open>
  C7. The change processor is given the changes of the page one after the other and in
  the order of the page (\<open>processChain_observes_in_order\<close>: what it observed is a
  prefix of the page, and the whole page when no dispatch is rejected). The join that
  follows is \<^verbatim>\<open>Promise.all\<close>: with every request fulfilled it settles with the last of them
  (\<open>lastSettlement_upper\<close>), but it is rejected as soon as one request is rejected. At the
  input below the request of the first change is rejected at instant 1 and the request
  of the second change settles at instant 5: the join hands control back at instant 1,
  and the batch goes on (reports the error, schedules the retry, returns) while the
  second request is still running.
\<close>

theorem join_resumes_at_first_rejection:
  "processChain ((envA (Num 0))\<lparr> processChange := failingFirst \<rparr>) (Some ''a'')
       (results (pageA (Num 0))) [] worldA
     = (Inr [\<lparr> settles_at = 1, failure = Some (ApiRequestError ''503'') \<rparr>,
             \<lparr> settles_at = 5, failure = None \<rparr>],
        worldA\<lparr> observed := [(Change ''6'' ''doc1'', Some ''a''), (Change ''9'' ''doc2'', Some ''a'')] \<rparr>)
   \<and> promiseAll [\<lparr> settles_at = 1, failure = Some (ApiRequestError ''503'') \<rparr>,
                 \<lparr> settles_at = 5, failure = None \<rparr>] = (1, Some (ApiRequestError ''503''))
   \<and> lastSettlement [\<lparr> settles_at = 1, failure = Some (ApiRequestError ''503'') \<rparr>,
                     \<lparr> settles_at = 5, failure = None \<rparr>] = 5
   \<and> fst (processBatchOfChanges ((envA (Num 0))\<lparr> processChange := failingFirst \<rparr>)
        listenerA worldA) = Inr False
   \<and> resumed_at (snd (snd (processBatchOfChanges ((envA (Num 0))\<lparr> processChange := failingFirst \<rparr>)
        listenerA worldA))) = Some 1
   \<and> soiler (snd (snd (processBatchOfChanges ((envA (Num 0))\<lparr> processChange := failingFirst \<rparr>)
        listenerA worldA))) = [6000]"
  by (simp add: envA_def pageA_def listenerA_def worldA_def failingFirst_def
      processBatchOfChanges_def changesForListener_def processChanges_def waitForRequests_def
      promiseAll_def lastSettlement_def moreBatches_def truthy_def truthy_ts_def
      isApiRequestError_def onError_def scheduleRetry_def retriesOf_def truthy_num_def Let_def
      retryTime_def js_trunc_def setDirtyAt_def queueSoiler_def updateItem_def)

subsection \<open>The result of a batch\<close>

text \<open>
  C1, as amended. Whenever \<^verbatim>\<open>_processBatchOfChanges\<close> returns, its result is true exactly
  when \<open>pending\<close> of the fetched page is truthy, and it does return when the fetch, the
  dispatches and all requests succeed. When it raises anything but a
  \<open>DatabaseNotFoundError\<close>, \<^verbatim>\<open>_processBatchOfChangesLogError\<close> returns true, whatever the
  page reported.
\<close>

theorem batch_reports_pending_when_it_returns:
  "(processBatchOfChanges E listener w = (Inr b, l', w') \<longrightarrow>
      (\<exists>changes. changesForListener E listener = Inr changes \<and> b = truthy (pending changes)))
   \<and> (changesForListener E listener = Inr changes
        \<and> processChain E (db_name listener) (results changes) [] w = (Inr requests, w1)
        \<and> (\<forall>q \<in> set requests. failure q = None) \<longrightarrow>
      fst (processBatchOfChanges E listener w) = Inr (truthy (pending changes)))
   \<and> (processBatchOfChanges E listener w = (Inl e, l', w') \<and> \<not> isDatabaseNotFoundError e \<longrightarrow>
      fst (processBatchOfChangesLogError E listener w) = Inr (Some True))"
proof (intro conjI impI)
  assume "processBatchOfChanges E listener w = (Inr b, l', w')"
  then show "\<exists>changes. changesForListener E listener = Inr changes \<and> b = truthy (pending changes)"
    by (rule processBatch_returns)
next
  assume "changesForListener E listener = Inr changes
        \<and> processChain E (db_name listener) (results changes) [] w = (Inr requests, w1)
        \<and> (\<forall>q \<in> set requests. failure q = None)"
  then show "fst (processBatchOfChanges E listener w) = Inr (truthy (pending changes))"
    using processBatch_all_fulfilled [of E listener changes w requests w1] by simp
next
  assume "processBatchOfChanges E listener w = (Inl e, l', w') \<and> \<not> isDatabaseNotFoundError e"
  then show "fst (processBatchOfChangesLogError E listener w) = Inr (Some True)"
    using logError_catches [of E listener w e l' w'] by simp
qed

theorem batch_reports_pending_when_it_returns_witness:
  "fst (processBatchOfChanges (envA (Num 3)) listenerA worldA) = Inr True"
proof -
  have fetch: "changesForListener (envA (Num 3)) listenerA = Inr (pageA (Num 3))"
    by (simp add: changesForListener_def envA_def)
  have chain: "processChain (envA (Num 3)) (db_name listenerA) (results (pageA (Num 3))) [] worldA =
      (Inr [\<lparr> settles_at = 1, failure = None \<rparr>, \<lparr> settles_at = 2, failure = None \<rparr>],
       worldA\<lparr> observed := [(Change ''6'' ''doc1'', Some ''a''), (Change ''9'' ''doc2'', Some ''a'')] \<rparr>)"
    by (simp add: envA_def pageA_def listenerA_def worldA_def)
  have ok: "\<forall>q \<in> set [\<lparr> settles_at = 1, failure = None \<rparr>, \<lparr> settles_at = 2, failure = None \<rparr>]. failure q = None"
    by simp
  have "fst (processBatchOfChanges (envA (Num 3)) listenerA worldA) = Inr (truthy (pending (pageA (Num 3))))"
    using batch_reports_pending_when_it_returns
      [of "envA (Num 3)" listenerA worldA _ _ _ "pageA (Num 3)"
         "[\<lparr> settles_at = 1, failure = None \<rparr>, \<lparr> settles_at = 2, failure = None \<rparr>]"
         "worldA\<lparr> observed := [(Change ''6'' ''doc1'', Some ''a''), (Change ''9'' ''doc2'', Some ''a'')] \<rparr>"]
      fetch chain ok
    by blast
  then show ?thesis
    by (simp add: pageA_def truthy_def)
qed

text \<open>
  C1 as stated fails: at the input below the page reports nothing pending, a dispatch is
  rejected, and the batch operation returns true.
\<close>

theorem batch_returns_true_without_pending:
  "changesForListener ((envA (Num 0))\<lparr> processChange := rejecting \<rparr>) listenerA = Inr (pageA (Num 0))
   \<and> truthy (pending (pageA (Num 0))) = False
   \<and> fst (processBatchOfChangesLogError ((envA (Num 0))\<lparr> processChange := rejecting \<rparr>) listenerA worldA)
       = Inr (Some True)"
  by (simp add: envA_def pageA_def listenerA_def worldA_def rejecting_def truthy_def
      processBatchOfChangesLogError_def processBatchOfChanges_def changesForListener_def
      processChanges_def isDatabaseNotFoundError_def)

text \<open>
  What \<^verbatim>\<open>_processBatchOfChangesLogError\<close> returns when the batch raises nothing is not part
  of the amended statement: its \<^verbatim>\<open>try\<close> block awaits the batch without returning its
  result (\<open>logError_awaits_without_returning\<close>), so at the input below the batch
  reports more pages and \<^verbatim>\<open>_process\<close> returns \<open>undefined\<close>.
\<close>

lemma process_returns_undefined_with_more_pending:
  "fst (processBatchOfChanges (envA (Num 3)) listenerA worldA) = Inr True
   \<and> fst (process (envA (Num 3)) listenerA worldA) = Inr None"
  by (simp add: envA_def pageA_def listenerA_def worldA_def truthy_def truthy_ts_def
      process_def processBatchOfChangesLogError_def processBatchOfChanges_def
      changesForListener_def processChanges_def waitForRequests_def promiseAll_def
      moreBatches_def)

subsection \<open>Failed requests\<close>

text \<open>
  C2, as amended. Let the fetch and every dispatch succeed, and let the join be rejected
  with an \<open>ApiRequestError\<close> (the error of the first request to be rejected). Then the
  error is reported and the retry scheduler is run on the listener, for every value of
  the retry counter. When the backoff policy has not reached its limit for the counter,
  the batch writes nothing after the scheduler: \<open>last_seq\<close> is not advanced, in memory
  or (for a record whose stored \<open>last_seq\<close> is the one in memory) in the store. When the
  limit has been reached, the scheduler clears \<open>retries\<close> and sets no \<open>dirty_at\<close>, and
  \<open>last_seq\<close> is then advanced to the cursor of the page unless the listener already
  carried a \<open>dirty_at\<close>.
\<close>

theorem api_rejection_hands_over_to_retry_scheduler:
  assumes fetch: "changesForListener E listener = Inr changes"
    and chain: "processChain E (db_name listener) (results changes) [] w = (Inr requests, w1)"
    and rej: "firstRejection requests = Some (t, e)"
    and api: "isApiRequestError e"
  shows "fst (processBatchOfChanges E listener w) = Inr (truthy (pending changes))
       \<and> fst (snd (processBatchOfChanges E listener w)) =
           fst (scheduleRetry E listener (onError e (w1\<lparr> resumed_at := Some t \<rparr>)))
       \<and> reported (snd (snd (processBatchOfChanges E listener w))) = reported w @ [e]
       \<and> (\<not> hasReachedRetryLimit E (case retries listener of None \<Rightarrow> 0 | Some r \<Rightarrow> r) \<longrightarrow>
            snd (snd (processBatchOfChanges E listener w)) =
              snd (scheduleRetry E listener (onError e (w1\<lparr> resumed_at := Some t \<rparr>)))
            \<and> last_seq (fst (snd (processBatchOfChanges E listener w))) = last_seq listener
            \<and> (\<forall>i d. doc_id listener = Some i \<and> store w i = Some d \<and> last_seq listener = last_seq d \<longrightarrow>
                 (\<exists>d'. store (snd (snd (processBatchOfChanges E listener w))) i = Some d'
                    \<and> last_seq d' = last_seq d)))
       \<and> (hasReachedRetryLimit E (case retries listener of None \<Rightarrow> 0 | Some r \<Rightarrow> r) \<longrightarrow>
            retries (fst (snd (processBatchOfChanges E listener w))) = Some 0
            \<and> soiler (snd (snd (processBatchOfChanges E listener w))) = soiler w
            \<and> (dirty_at listener = None \<longrightarrow>
                 store (snd (snd (processBatchOfChanges E listener w))) =
                   getMergeUpsert (racing E) (store w)
                     (lastSeqDoc (doc_id listener) (page_last_seq changes)))
            \<and> (dirty_at listener \<noteq> None \<longrightarrow>
                 store (snd (snd (processBatchOfChanges E listener w))) = store w))"
proof -
  note run = processBatch_api_rejection [OF fetch chain rej api]
  have w1: "store w1 = store w" "reported w1 = reported w" "soiler w1 = soiler w"
    using processChain_world [OF chain] by simp_all
  show ?thesis
  proof (cases "hasReachedRetryLimit E (case retries listener of None \<Rightarrow> 0 | Some r \<Rightarrow> r)")
    case True
    note s = scheduleRetry_limit [OF True]
    show ?thesis
      using True by (simp add: run s onError_def updateLastSeq_def w1)
  next
    case False
    note s = scheduleRetry_delay [OF False]
    have kept: "\<exists>d'. store (snd (snd (processBatchOfChanges E listener w))) i = Some d'
                  \<and> last_seq d' = last_seq d"
      if "doc_id listener = Some i" and "store w i = Some d" and "last_seq listener = last_seq d"
      for i d
      using persist_keeps_last_seq
        [of "listener\<lparr> dirty_at := Some (retryTime E (case retries listener of None \<Rightarrow> 0 | Some r \<Rightarrow> r)),
              retries := Some (Suc (case retries listener of None \<Rightarrow> 0 | Some r \<Rightarrow> r)) \<rparr>"
            i "store w" d] that
      by (simp add: run s onError_def w1)
    show ?thesis
      using False kept by (simp add: run s onError_def w1)
  qed
qed

theorem api_rejection_hands_over_to_retry_scheduler_witness:
  "processBatchOfChanges ((envA (Num 0))\<lparr> processChange := failingFirst \<rparr>) listenerA worldA =
     (Inr False,
      listenerA\<lparr> dirty_at := Some 6000, retries := Some 1 \<rparr>,
      \<lparr> store = [''spiegel_cl_a'' \<mapsto> listenerA\<lparr> dirty_at := Some 6000, retries := Some 1, doc_rev := Some 4 \<rparr>],
        reported = [ApiRequestError ''503''],
        observed = [(Change ''6'' ''doc1'', Some ''a''), (Change ''9'' ''doc2'', Some ''a'')],
        soiler = [6000], resumed_at = Some 1 \<rparr>)"
proof -
  let ?E = "(envA (Num 0))\<lparr> processChange := failingFirst \<rparr>"
  let ?w1 = "worldA\<lparr> observed := [(Change ''6'' ''doc1'', Some ''a''), (Change ''9'' ''doc2'', Some ''a'')] \<rparr>"
  have fetch: "changesForListener ?E listenerA = Inr (pageA (Num 0))"
    by (simp add: changesForListener_def envA_def)
  have chain: "processChain ?E (db_name listenerA) (results (pageA (Num 0))) [] worldA =
      (Inr [\<lparr> settles_at = 1, failure = Some (ApiRequestError ''503'') \<rparr>,
            \<lparr> settles_at = 5, failure = None \<rparr>], ?w1)"
    by (simp add: envA_def pageA_def listenerA_def worldA_def failingFirst_def)
  have rej: "firstRejection [\<lparr> settles_at = 1, failure = Some (ApiRequestError ''503'') \<rparr>,
            \<lparr> settles_at = 5, failure = None \<rparr>] = Some (1, ApiRequestError ''503'')"
    by simp
  have api: "isApiRequestError (ApiRequestError ''503'')"
    by (simp add: isApiRequestError_def)
  have lim: "\<not> hasReachedRetryLimit ?E (case retries listenerA of None \<Rightarrow> 0 | Some r \<Rightarrow> r)"
    by (simp add: envA_def)
  have t: "js_trunc 6000 = 6000"
    by (simp add: js_trunc_def)
  have sched: "scheduleRetry ?E listenerA (onError (ApiRequestError ''503'') (?w1\<lparr> resumed_at := Some 1 \<rparr>)) =
     (listenerA\<lparr> dirty_at := Some 6000, retries := Some 1 \<rparr>,
      \<lparr> store = [''spiegel_cl_a'' \<mapsto> listenerA\<lparr> dirty_at := Some 6000, retries := Some 1, doc_rev := Some 4 \<rparr>],
        reported = [ApiRequestError ''503''],
        observed = [(Change ''6'' ''doc1'', Some ''a''), (Change ''9'' ''doc2'', Some ''a'')],
        soiler = [6000], resumed_at = Some 1 \<rparr>)"
    by (simp add: scheduleRetry_def retriesOf_def truthy_num_def envA_def listenerA_def worldA_def
        onError_def Let_def retryTime_def t setDirtyAt_def queueSoiler_def updateItem_def
        getMergeUpsert_def put_def merged_def merge_doc_def field_or_def current_rev_def
        next_rev_def)
  note c = api_rejection_hands_over_to_retry_scheduler [OF fetch chain rej api]
  have 1: "fst (processBatchOfChanges ?E listenerA worldA) = Inr False"
    using c by (simp add: pageA_def truthy_def)
  have 2: "fst (snd (processBatchOfChanges ?E listenerA worldA)) =
      listenerA\<lparr> dirty_at := Some 6000, retries := Some 1 \<rparr>"
    using c sched by simp
  have 3: "snd (snd (processBatchOfChanges ?E listenerA worldA)) =
      snd (scheduleRetry ?E listenerA (onError (ApiRequestError ''503'') (?w1\<lparr> resumed_at := Some 1 \<rparr>)))"
    using c lim by blast
  show ?thesis
    using 1 2 3 sched by (simp add: prod_eq_iff)
qed

text \<open>
  C2 as stated fails when the retry limit has been reached: at the input below the
  policy allows three retries and the listener has used them, a request is rejected with
  an \<open>ApiRequestError\<close>, and the stored \<open>last_seq\<close> moves from 5 to the cursor 9.
\<close>

theorem lastSeq_advanced_when_retry_limit_reached:
  "fst (processChain ((envA (Num 0))\<lparr> processChange := failingFirst, hasReachedRetryLimit := (\<lambda>r. 3 \<le> r) \<rparr>)
         (Some ''a'') (results (pageA (Num 0))) []
         (worldA\<lparr> store := [''spiegel_cl_a'' \<mapsto> listenerA\<lparr> retries := Some 3 \<rparr>] \<rparr>))
     = Inr [\<lparr> settles_at = 1, failure = Some (ApiRequestError ''503'') \<rparr>,
            \<lparr> settles_at = 5, failure = None \<rparr>]
   \<and> last_seq (listenerA\<lparr> retries := Some 3 \<rparr>) = Some ''5''
   \<and> processBatchOfChanges
        ((envA (Num 0))\<lparr> processChange := failingFirst, hasReachedRetryLimit := (\<lambda>r. 3 \<le> r) \<rparr>)
        (listenerA\<lparr> retries := Some 3 \<rparr>)
        (worldA\<lparr> store := [''spiegel_cl_a'' \<mapsto> listenerA\<lparr> retries := Some 3 \<rparr>] \<rparr>)
     = (Inr False,
        listenerA\<lparr> retries := Some 0 \<rparr>,
        \<lparr> store = [''spiegel_cl_a'' \<mapsto>
                     listenerA\<lparr> retries := Some 3, last_seq := Some ''9'', doc_rev := Some 4 \<rparr>],
          reported = [ApiRequestError ''503''],
          observed = [(Change ''6'' ''doc1'', Some ''a''), (Change ''9'' ''doc2'', Some ''a'')],
          soiler = [], resumed_at = Some 1 \<rparr>)"
  by (simp add: envA_def pageA_def listenerA_def worldA_def failingFirst_def
      processBatchOfChanges_def changesForListener_def processChanges_def waitForRequests_def
      promiseAll_def moreBatches_def truthy_def truthy_ts_def isApiRequestError_def onError_def
      scheduleRetry_def retriesOf_def truthy_num_def clearRetries_def Let_def
      updateLastSeq_def lastSeqDoc_def getMergeUpsert_def emptyDoc_def put_def merged_def
      merge_doc_def field_or_def current_rev_def next_rev_def)

subsection \<open>Advancing the resume position\<close>

text \<open>
  C3, as amended. Let the fetch and every dispatch succeed and every request be
  fulfilled. Then \<open>last_seq\<close> is advanced to the cursor of the page exactly when the
  listener in memory carries no \<open>dirty_at\<close>. The advance is the merge-upsert of
  \<open>last_seq\<close>: for a record of the store it lands on whatever other processes wrote to the
  record during the batch, so a record that was dirtied by someone else in the meantime
  still gets the new \<open>last_seq\<close>. When the listener carries a \<open>dirty_at\<close> the store is
  not written.
\<close>

theorem lastSeq_advance_depends_on_dirty_at:
  assumes fetch: "changesForListener E listener = Inr changes"
    and chain: "processChain E (db_name listener) (results changes) [] w = (Inr requests, w1)"
    and ok: "\<forall>q \<in> set requests. failure q = None"
  shows "fst (processBatchOfChanges E listener w) = Inr (truthy (pending changes))
       \<and> fst (snd (processBatchOfChanges E listener w)) = listener
       \<and> (dirty_at listener = None \<longrightarrow>
            store (snd (snd (processBatchOfChanges E listener w))) =
              getMergeUpsert (racing E) (store w) (lastSeqDoc (doc_id listener) (page_last_seq changes))
            \<and> (\<forall>i d. doc_id listener = Some i \<and> store w i = Some d \<and> doc_id d = Some i \<longrightarrow>
                 (\<exists>d'. fold (\<lambda>f. other_write f i) (racing E) (store w) i = Some d'
                    \<and> store (snd (snd (processBatchOfChanges E listener w))) i =
                        Some (d'\<lparr> last_seq := Some (page_last_seq changes),
                                  doc_rev := next_rev (doc_rev d') \<rparr>))))
       \<and> (dirty_at listener \<noteq> None \<longrightarrow>
            store (snd (snd (processBatchOfChanges E listener w))) = store w)"
proof -
  note run = processBatch_all_fulfilled [OF fetch chain ok]
  have st: "store w1 = store w"
    using processChain_world [OF chain] by simp
  have adv: "\<exists>d'. fold (\<lambda>f. other_write f i) (racing E) (store w) i = Some d'
                \<and> store (snd (snd (processBatchOfChanges E listener w))) i =
                    Some (d'\<lparr> last_seq := Some (page_last_seq changes),
                              doc_rev := next_rev (doc_rev d') \<rparr>)"
    if "dirty_at listener = None" and "doc_id listener = Some i" and "store w i = Some d"
      and "doc_id d = Some i" for i d
  proof -
    from getMergeUpsert_lastSeqDoc [of "store w" i d "racing E" "page_last_seq changes"] that
    obtain d' where
      a: "fold (\<lambda>f. other_write f i) (racing E) (store w) i = Some d'"
      and b: "getMergeUpsert (racing E) (store w) (lastSeqDoc (Some i) (page_last_seq changes)) =
             (fold (\<lambda>f. other_write f i) (racing E) (store w))
               (i \<mapsto> d'\<lparr> last_seq := Some (page_last_seq changes), doc_rev := next_rev (doc_rev d') \<rparr>)"
      by blast
    show ?thesis
      using a b that by (simp add: run updateLastSeq_def st)
  qed
  show ?thesis
    using adv by (simp add: run updateLastSeq_def st)
qed

theorem lastSeq_advance_depends_on_dirty_at_witness:
  "store (snd (snd (processBatchOfChanges (envA (Num 0)) listenerA worldA))) ''spiegel_cl_a''
     = Some (listenerA\<lparr> last_seq := Some ''9'', doc_rev := Some 4 \<rparr>)
   \<and> store (snd (snd (processBatchOfChanges (envA (Num 0)) (listenerA\<lparr> dirty_at := Some 6000 \<rparr>) worldA)))
     = store worldA"
proof
  have fetch: "changesForListener (envA (Num 0)) listenerA = Inr (pageA (Num 0))"
    by (simp add: changesForListener_def envA_def)
  have chain: "processChain (envA (Num 0)) (db_name listenerA) (results (pageA (Num 0))) [] worldA =
      (Inr [\<lparr> settles_at = 1, failure = None \<rparr>, \<lparr> settles_at = 2, failure = None \<rparr>],
       worldA\<lparr> observed := [(Change ''6'' ''doc1'', Some ''a''), (Change ''9'' ''doc2'', Some ''a'')] \<rparr>)"
    by (simp add: envA_def pageA_def listenerA_def worldA_def)
  have ok: "\<forall>q \<in> set [\<lparr> settles_at = 1, failure = None \<rparr>, \<lparr> settles_at = 2, failure = None \<rparr>]. failure q = None"
    by simp
  have clean: "dirty_at listenerA = None"
    by (simp add: listenerA_def)
  have adv: "store (snd (snd (processBatchOfChanges (envA (Num 0)) listenerA worldA))) =
      getMergeUpsert (racing (envA (Num 0))) (store worldA)
        (lastSeqDoc (doc_id listenerA) (page_last_seq (pageA (Num 0))))"
    using lastSeq_advance_depends_on_dirty_at [OF fetch chain ok] clean by blast
  show "store (snd (snd (processBatchOfChanges (envA (Num 0)) listenerA worldA))) ''spiegel_cl_a''
     = Some (listenerA\<lparr> last_seq := Some ''9'', doc_rev := Some 4 \<rparr>)"
    unfolding adv
    by (simp add: envA_def pageA_def listenerA_def worldA_def lastSeqDoc_def emptyDoc_def
        getMergeUpsert_def put_def merged_def merge_doc_def field_or_def current_rev_def
        next_rev_def)
next
  have fetch: "changesForListener (envA (Num 0)) (listenerA\<lparr> dirty_at := Some 6000 \<rparr>) = Inr (pageA (Num 0))"
    by (simp add: changesForListener_def envA_def)
  have chain: "processChain (envA (Num 0)) (db_name (listenerA\<lparr> dirty_at := Some 6000 \<rparr>)) (results (pageA (Num 0))) [] worldA =
      (Inr [\<lparr> settles_at = 1, failure = None \<rparr>, \<lparr> settles_at = 2, failure = None \<rparr>],
       worldA\<lparr> observed := [(Change ''6'' ''doc1'', Some ''a''), (Change ''9'' ''doc2'', Some ''a'')] \<rparr>)"
    by (simp add: envA_def pageA_def listenerA_def worldA_def)
  have ok: "\<forall>q \<in> set [\<lparr> settles_at = 1, failure = None \<rparr>, \<lparr> settles_at = 2, failure = None \<rparr>]. failure q = None"
    by simp
  from lastSeq_advance_depends_on_dirty_at [OF fetch chain ok]
  show "store (snd (snd (processBatchOfChanges (envA (Num 0)) (listenerA\<lparr> dirty_at := Some 6000 \<rparr>) worldA)))
     = store worldA"
    by simp
qed

text \<open>
  C3 as stated fails: at the input below another process dirties the record during the
  batch, every request is fulfilled, and the stored \<open>last_seq\<close> moves from 5 to the
  cursor 9 (the other process's write is kept as well).
\<close>

theorem lastSeq_advanced_despite_concurrent_dirtying:
  "fst (processChain ((envA (Num 0))\<lparr> racing := [dirtiedByOther] \<rparr>) (Some ''a'')
         (results (pageA (Num 0))) [] worldA)
     = Inr [\<lparr> settles_at = 1, failure = None \<rparr>, \<lparr> settles_at = 2, failure = None \<rparr>]
   \<and> fst (processBatchOfChanges ((envA (Num 0))\<lparr> racing := [dirtiedByOther] \<rparr>) listenerA worldA)
     = Inr False
   \<and> store worldA ''spiegel_cl_a'' = Some listenerA
   \<and> last_seq listenerA = Some ''5''
   \<and> store (snd (snd (processBatchOfChanges ((envA (Num 0))\<lparr> racing := [dirtiedByOther] \<rparr>)
        listenerA worldA))) ''spiegel_cl_a''
     = Some (listenerA\<lparr> updated_at := Some 1001, last_seq := Some ''9'', doc_rev := Some 5 \<rparr>)"
  by (simp add: envA_def pageA_def listenerA_def worldA_def dirtiedByOther_def
      processBatchOfChanges_def changesForListener_def processChanges_def waitForRequests_def
      promiseAll_def lastSettlement_def moreBatches_def truthy_def truthy_ts_def
      updateLastSeq_def lastSeqDoc_def getMergeUpsert_def emptyDoc_def put_def merged_def
      merge_doc_def field_or_def other_write_def current_rev_def next_rev_def)

subsection \<open>Failures of the fetch and of the dispatch\<close>

text \<open>
  C8. When the fetch is rejected with an error whose field \<^verbatim>\<open>error\<close> is \<^verbatim>\<open>not_found\<close>, the
  batch operation raises \<open>DatabaseNotFoundError\<close> for the listener's database, and nothing
  is reported or written. Every failure that is not a \<open>DatabaseNotFoundError\<close>, whether
  the fetch, a dispatch or anything else in the batch raised it, is handed to \<^verbatim>\<open>_onError\<close>,
  and the batch operation returns true.
\<close>

theorem not_found_propagates_other_failures_logged:
  "(changesArray E (db_name listener) (changesOpts E listener) = Inl e
      \<and> err_error e = Some ''not_found'' \<longrightarrow>
        processBatchOfChangesLogError E listener w =
          (Inl (DatabaseNotFoundError (db_name listener)), listener, w))
   \<and> (changesArray E (db_name listener) (changesOpts E listener) = Inl e
      \<and> err_error e \<noteq> Some ''not_found'' \<and> \<not> isDatabaseNotFoundError e \<longrightarrow>
        processBatchOfChangesLogError E listener w =
          (Inr (Some True), listener, w\<lparr> reported := reported w @ [e] \<rparr>))
   \<and> (changesForListener E listener = Inr changes
      \<and> processChain E (db_name listener) (results changes) [] w = (Inl e, w1)
      \<and> \<not> isDatabaseNotFoundError e \<longrightarrow>
        processBatchOfChangesLogError E listener w =
          (Inr (Some True), listener, w1\<lparr> reported := reported w1 @ [e] \<rparr>)
        \<and> store w1 = store w)
   \<and> (processBatchOfChanges E listener w = (Inl e, l', w') \<and> \<not> isDatabaseNotFoundError e \<longrightarrow>
        processBatchOfChangesLogError E listener w =
          (Inr (Some True), l', w'\<lparr> reported := reported w' @ [e] \<rparr>))"
proof (intro conjI impI)
  assume "changesArray E (db_name listener) (changesOpts E listener) = Inl e
      \<and> err_error e = Some ''not_found''"
  then show "processBatchOfChangesLogError E listener w =
          (Inl (DatabaseNotFoundError (db_name listener)), listener, w)"
    by (simp add: processBatchOfChangesLogError_def processBatchOfChanges_def
        changesForListener_def isDatabaseNotFoundError_def)
next
  assume "changesArray E (db_name listener) (changesOpts E listener) = Inl e
      \<and> err_error e \<noteq> Some ''not_found'' \<and> \<not> isDatabaseNotFoundError e"
  then show "processBatchOfChangesLogError E listener w =
          (Inr (Some True), listener, w\<lparr> reported := reported w @ [e] \<rparr>)"
    by (simp add: processBatchOfChangesLogError_def processBatchOfChanges_def
        changesForListener_def onError_def)
next
  assume a: "changesForListener E listener = Inr changes
      \<and> processChain E (db_name listener) (results changes) [] w = (Inl e, w1)
      \<and> \<not> isDatabaseNotFoundError e"
  then show "processBatchOfChangesLogError E listener w =
          (Inr (Some True), listener, w1\<lparr> reported := reported w1 @ [e] \<rparr>)"
    by (simp add: processBatchOfChangesLogError_def processBatchOfChanges_def
        processChanges_def onError_def)
  from a show "store w1 = store w"
    using processChain_world [of E "db_name listener" "results changes" "[]" w "Inl e" w1] by simp
next
  assume "processBatchOfChanges E listener w = (Inl e, l', w') \<and> \<not> isDatabaseNotFoundError e"
  then show "processBatchOfChangesLogError E listener w =
          (Inr (Some True), l', w'\<lparr> reported := reported w' @ [e] \<rparr>)"
    using logError_catches [of E listener w e l' w'] by simp
qed

theorem not_found_propagates_other_failures_logged_witness:
  "processBatchOfChangesLogError
     ((envA (Num 0))\<lparr> changesArray := (\<lambda>dbName opts. Inl (StoreError ''not_found'')) \<rparr>)
     listenerA worldA
     = (Inl (DatabaseNotFoundError (Some ''a'')), listenerA, worldA)
   \<and> processBatchOfChangesLogError
     ((envA (Num 0))\<lparr> changesArray := (\<lambda>dbName opts. Inl (StoreError ''timeout'')) \<rparr>)
     listenerA worldA
     = (Inr (Some True), listenerA, worldA\<lparr> reported := [StoreError ''timeout''] \<rparr>)
   \<and> processBatchOfChangesLogError ((envA (Num 0))\<lparr> processChange := rejecting \<rparr>) listenerA worldA
     = (Inr (Some True), listenerA,
        worldA\<lparr> reported := [OtherError ''boom''], observed := [(Change ''6'' ''doc1'', Some ''a'')] \<rparr>)"
proof (intro conjI)
  show "processBatchOfChangesLogError
     ((envA (Num 0))\<lparr> changesArray := (\<lambda>dbName opts. Inl (StoreError ''not_found'')) \<rparr>)
     listenerA worldA
     = (Inl (DatabaseNotFoundError (Some ''a'')), listenerA, worldA)"
    using not_found_propagates_other_failures_logged
      [of "(envA (Num 0))\<lparr> changesArray := (\<lambda>dbName opts. Inl (StoreError ''not_found'')) \<rparr>"
          listenerA "StoreError ''not_found''" worldA, THEN conjunct1]
    by (simp add: envA_def err_error_def listenerA_def)
next
  show "processBatchOfChangesLogError
     ((envA (Num 0))\<lparr> changesArray := (\<lambda>dbName opts. Inl (StoreError ''timeout'')) \<rparr>)
     listenerA worldA
     = (Inr (Some True), listenerA, worldA\<lparr> reported := [StoreError ''timeout''] \<rparr>)"
    using not_found_propagates_other_failures_logged
      [of "(envA (Num 0))\<lparr> changesArray := (\<lambda>dbName opts. Inl (StoreError ''timeout'')) \<rparr>"
          listenerA "StoreError ''timeout''" worldA, THEN conjunct2, THEN conjunct1]
    by (simp add: envA_def err_error_def isDatabaseNotFoundError_def worldA_def)
next
  have fetch: "changesForListener ((envA (Num 0))\<lparr> processChange := rejecting \<rparr>) listenerA = Inr (pageA (Num 0))"
    by (simp add: changesForListener_def envA_def)
  have chain: "processChain ((envA (Num 0))\<lparr> processChange := rejecting \<rparr>) (db_name listenerA)
       (results (pageA (Num 0))) [] worldA =
      (Inl (OtherError ''boom''), worldA\<lparr> observed := [(Change ''6'' ''doc1'', Some ''a'')] \<rparr>)"
    by (simp add: envA_def pageA_def listenerA_def worldA_def rejecting_def)
  have other: "\<not> isDatabaseNotFoundError (OtherError ''boom'')"
    by (simp add: isDatabaseNotFoundError_def)
  from not_found_propagates_other_failures_logged
      [of "(envA (Num 0))\<lparr> processChange := rejecting \<rparr>" listenerA "OtherError ''boom''" worldA
          "pageA (Num 0)" "worldA\<lparr> observed := [(Change ''6'' ''doc1'', Some ''a'')] \<rparr>",
       THEN conjunct2, THEN conjunct2, THEN conjunct1] fetch chain other
  show "processBatchOfChangesLogError ((envA (Num 0))\<lparr> processChange := rejecting \<rparr>) listenerA worldA
     = (Inr (Some True), listenerA,
        worldA\<lparr> reported := [OtherError ''boom''], observed := [(Change ''6'' ''doc1'', Some ''a'')] \<rparr>)"
    by (simp add: worldA_def)
qed

end
